theory Spec2Isabelle
  imports Main "HOL-Library.Char_ord" "HOL-Library.Sublist"
begin

section \<open>build-your-own-curl: the root command of \<^verbatim>\<open>cmd/root.go\<close>\<close>

text \<open>
  The program is one function, the \<^verbatim>\<open>Run\<close> callback of \<^verbatim>\<open>rootCmd\<close>. It parses its
  argument with \<^verbatim>\<open>url.Parse\<close>, reads \<^verbatim>\<open>Hostname()\<close>, \<^verbatim>\<open>Port()\<close> and \<^verbatim>\<open>Path\<close>, dials
  \<^verbatim>\<open>host:port\<close>, writes one request, reads once into a buffer of 1024 bytes and prints
  what it read.

  Go strings are byte sequences, so a Go string is a \<^typ>\<open>string\<close> here (a list of 8-bit
  \<^typ>\<open>char\<close>s). The functions of Go's standard library that the program calls are embedded
  first (package \<^verbatim>\<open>strings\<close>, then \<^verbatim>\<open>net/url\<close> as of go1.22, the version the repository's
  README names), then the network as the program sees it, then \<^verbatim>\<open>Run\<close> itself.
\<close>

subsection \<open>Package \<^verbatim>\<open>strings\<close>\<close>

text \<open>\<^verbatim>\<open>strings.Index(s, substr)\<close>: the first position of \<^verbatim>\<open>substr\<close> in \<^verbatim>\<open>s\<close>; Go's \<^verbatim>\<open>-1\<close> is
  \<^const>\<open>None\<close>.\<close>

fun strings_Index :: "string \<Rightarrow> string \<Rightarrow> nat option" where
  "strings_Index [] substr = (if substr = [] then Some 0 else None)"
| "strings_Index (c # cs) substr =
     (if prefix substr (c # cs) then Some 0
      else map_option Suc (strings_Index cs substr))"

text \<open>\<^verbatim>\<open>strings.LastIndex(s, substr)\<close> (and \<^verbatim>\<open>strings.LastIndexByte\<close> for a substring of one
  byte): the last position.\<close>

fun strings_LastIndex :: "string \<Rightarrow> string \<Rightarrow> nat option" where
  "strings_LastIndex [] substr = (if substr = [] then Some 0 else None)"
| "strings_LastIndex (c # cs) substr =
     (case strings_LastIndex cs substr of
        Some i \<Rightarrow> Some (Suc i)
      | None \<Rightarrow> if prefix substr (c # cs) then Some 0 else None)"

definition strings_Contains :: "string \<Rightarrow> string \<Rightarrow> bool" where
  "strings_Contains s substr = (strings_Index s substr \<noteq> None)"

text \<open>\<^verbatim>\<open>strings.Cut(s, sep)\<close> returns the text before and after the first \<^verbatim>\<open>sep\<close>, and whether
  \<^verbatim>\<open>sep\<close> was found; without \<^verbatim>\<open>sep\<close> it returns \<^verbatim>\<open>s, "", false\<close>.\<close>

definition strings_Cut :: "string \<Rightarrow> string \<Rightarrow> string \<times> string \<times> bool" where
  "strings_Cut s sep =
     (case strings_Index s sep of
        Some i \<Rightarrow> (take i s, drop (i + length sep) s, True)
      | None \<Rightarrow> (s, [], False))"

text \<open>\<^verbatim>\<open>strings.Count(s, substr)\<close>, which the parser calls with a substring of one byte.\<close>

definition strings_Count :: "string \<Rightarrow> char \<Rightarrow> nat" where
  "strings_Count s c = length (filter (\<lambda>b. b = c) s)"

definition strings_HasPrefix :: "string \<Rightarrow> string \<Rightarrow> bool" where
  "strings_HasPrefix s pre = prefix pre s"

definition strings_HasSuffix :: "string \<Rightarrow> string \<Rightarrow> bool" where
  "strings_HasSuffix s suf = suffix suf s"

definition is_upper :: "char \<Rightarrow> bool" where
  "is_upper c = (CHR ''A'' \<le> c \<and> c \<le> CHR ''Z'')"

definition is_lower :: "char \<Rightarrow> bool" where
  "is_lower c = (CHR ''a'' \<le> c \<and> c \<le> CHR ''z'')"

definition is_digit :: "char \<Rightarrow> bool" where
  "is_digit c = (CHR ''0'' \<le> c \<and> c \<le> CHR ''9'')"

text \<open>\<^verbatim>\<open>strings.ToLower\<close> on the bytes of a scheme, which are ASCII.\<close>

definition lower_byte :: "char \<Rightarrow> char" where
  "lower_byte c = (if is_upper c then char_of (of_char c + (32::nat)) else c)"

definition strings_ToLower :: "string \<Rightarrow> string" where
  "strings_ToLower s = map lower_byte s"

subsection \<open>Package \<^verbatim>\<open>net/url\<close>\<close>

text \<open>The errors \<^verbatim>\<open>url.Parse\<close> returns, by kind; the text they carry is left out.\<close>

datatype url_error =
    InvalidControlCharacter   \<comment> \<open>\<^verbatim>\<open>net/url: invalid control character in URL\<close>\<close>
  | EmptyURL                  \<comment> \<open>\<^verbatim>\<open>empty url\<close>\<close>
  | MissingProtocolScheme     \<comment> \<open>\<^verbatim>\<open>missing protocol scheme\<close>\<close>
  | InvalidURIForRequest      \<comment> \<open>\<^verbatim>\<open>invalid URI for request\<close>\<close>
  | FirstPathSegmentColon     \<comment> \<open>\<^verbatim>\<open>first path segment in URL cannot contain colon\<close>\<close>
  | MissingBracket            \<comment> \<open>\<^verbatim>\<open>missing ']' in host\<close>\<close>
  | InvalidPort               \<comment> \<open>\<^verbatim>\<open>invalid port ... after host\<close>\<close>
  | InvalidUserinfo           \<comment> \<open>\<^verbatim>\<open>net/url: invalid userinfo\<close>\<close>
  | EscapeError               \<comment> \<open>\<^verbatim>\<open>invalid URL escape\<close>\<close>
  | InvalidHostError          \<comment> \<open>\<^verbatim>\<open>invalid character ... in host name\<close>\<close>

datatype encoding =
    encodePath | encodePathSegment | encodeHost | encodeZone
  | encodeUserPassword | encodeQueryComponent | encodeFragment

record Userinfo =
  username :: string
  password :: string
  passwordSet :: bool

text \<open>The fields of \<^verbatim>\<open>url.URL\<close> that parsing fills in. \<^verbatim>\<open>RawPath\<close> and \<^verbatim>\<open>RawFragment\<close>, hints
  about the original escaping that the program never reads, are left out.\<close>

record URL =
  Scheme :: string
  Opaque :: string
  User :: "Userinfo option"
  Host :: string
  Path :: string
  OmitHost :: bool
  ForceQuery :: bool
  RawQuery :: string
  Fragment :: string

definition new_URL :: URL where
  "new_URL = \<lparr>Scheme = [], Opaque = [], User = None, Host = [], Path = [],
     OmitHost = False, ForceQuery = False, RawQuery = [], Fragment = []\<rparr>"

definition ishex :: "char \<Rightarrow> bool" where
  "ishex c = (is_digit c \<or> (CHR ''a'' \<le> c \<and> c \<le> CHR ''f'') \<or> (CHR ''A'' \<le> c \<and> c \<le> CHR ''F''))"

definition unhex :: "char \<Rightarrow> nat" where
  "unhex c =
     (if is_digit c then of_char c - of_char CHR ''0''
      else if CHR ''a'' \<le> c \<and> c \<le> CHR ''f'' then of_char c - of_char CHR ''a'' + 10
      else if CHR ''A'' \<le> c \<and> c \<le> CHR ''F'' then of_char c - of_char CHR ''A'' + 10
      else 0)"

text \<open>\<^verbatim>\<open>unhex(a)<<4 | unhex(b)\<close>, one byte.\<close>

definition hex_byte :: "char \<Rightarrow> char \<Rightarrow> char" where
  "hex_byte a b = char_of (unhex a * 16 + unhex b)"

definition stringContainsCTLByte :: "string \<Rightarrow> bool" where
  "stringContainsCTLByte s = list_ex (\<lambda>b. b < CHR '' '' \<or> b = CHR 0x7F) s"

text \<open>\<^verbatim>\<open>shouldEscape(c, mode)\<close>, with the source's order of tests.\<close>

definition shouldEscape :: "char \<Rightarrow> encoding \<Rightarrow> bool" where
  "shouldEscape c mode =
     (if is_lower c \<or> is_upper c \<or> is_digit c then False
      else if (mode = encodeHost \<or> mode = encodeZone) \<and> c \<in> set ''!$&'()*+,;=:[]<>\"'' then False
      else if c \<in> set ''-_.~'' then False
      else if c \<in> set ''$&+,/:;=?@'' \<and> mode = encodePath then c = CHR ''?''
      else if c \<in> set ''$&+,/:;=?@'' \<and> mode = encodePathSegment
        then c = CHR ''/'' \<or> c = CHR '';'' \<or> c = CHR '','' \<or> c = CHR ''?''
      else if c \<in> set ''$&+,/:;=?@'' \<and> mode = encodeUserPassword
        then c = CHR ''@'' \<or> c = CHR ''/'' \<or> c = CHR ''?'' \<or> c = CHR '':''
      else if c \<in> set ''$&+,/:;=?@'' \<and> mode = encodeQueryComponent then True
      else if c \<in> set ''$&+,/:;=?@'' \<and> mode = encodeFragment then False
      else if mode = encodeFragment \<and> c \<in> set ''!()*'' then False
      else True)"

text \<open>
  \<^verbatim>\<open>unescape(s, mode)\<close> makes two passes. The first checks every \<^verbatim>\<open>%\<close> escape and, for a
  host or a zone, every plain byte; the second decodes. \<open>unescape_check\<close> is the first
  pass, returning the error it stops at.
\<close>

fun unescape_check :: "encoding \<Rightarrow> string \<Rightarrow> url_error option" where
  "unescape_check mode [] = None"
| "unescape_check mode (c # cs) =
     (if c = CHR ''%'' then
        (case cs of
           a # b # rest \<Rightarrow>
             if \<not> ishex a \<or> \<not> ishex b then Some EscapeError
             else if mode = encodeHost \<and> unhex a < 8 \<and> [c, a, b] \<noteq> ''%25'' then Some EscapeError
             else if mode = encodeZone \<and> [c, a, b] \<noteq> ''%25'' \<and> hex_byte a b \<noteq> CHR '' ''
                     \<and> shouldEscape (hex_byte a b) encodeHost then Some EscapeError
             else unescape_check mode rest
         | _ \<Rightarrow> Some EscapeError)
      else if c = CHR ''+'' then unescape_check mode cs
      else if (mode = encodeHost \<or> mode = encodeZone) \<and> c < CHR 0x80 \<and> shouldEscape c encodeHost
        then Some InvalidHostError
      else unescape_check mode cs)"

text \<open>The second pass. A \<^verbatim>\<open>%\<close> with fewer than two bytes after it cannot reach this pass (the
  first one has returned an error); the equation for it ends the output.\<close>

fun unescape_decode :: "encoding \<Rightarrow> string \<Rightarrow> string" where
  "unescape_decode mode [] = []"
| "unescape_decode mode (c # cs) =
     (if c = CHR ''%'' then
        (case cs of
           a # b # rest \<Rightarrow> hex_byte a b # unescape_decode mode rest
         | _ \<Rightarrow> [])
      else if c = CHR ''+'' then
        (if mode = encodeQueryComponent then CHR '' '' else CHR ''+'') # unescape_decode mode cs
      else c # unescape_decode mode cs)"

text \<open>Between the passes the source returns \<^verbatim>\<open>s\<close> itself when it counted no \<^verbatim>\<open>%\<close> (\<^verbatim>\<open>n == 0\<close>)
  and \<^verbatim>\<open>hasPlus\<close> is unset; \<^verbatim>\<open>hasPlus\<close> is set by a \<^verbatim>\<open>+\<close> in mode \<^verbatim>\<open>encodeQueryComponent\<close>.\<close>

definition unescape :: "string \<Rightarrow> encoding \<Rightarrow> url_error + string" where
  "unescape s mode =
     (case unescape_check mode s of
        Some e \<Rightarrow> Inl e
      | None \<Rightarrow>
          if strings_Count s CHR ''%'' = 0 \<and> \<not> (CHR ''+'' \<in> set s \<and> mode = encodeQueryComponent)
          then Inr s
          else Inr (unescape_decode mode s))"

text \<open>\<^verbatim>\<open>getScheme(rawURL)\<close>: the loop over the index \<^verbatim>\<open>i\<close>, the bytes from \<^verbatim>\<open>i\<close> on as the last
  argument.\<close>

fun getScheme_loop :: "nat \<Rightarrow> string \<Rightarrow> string \<Rightarrow> url_error + (string \<times> string)" where
  "getScheme_loop i rawURL [] = Inr ([], rawURL)"
| "getScheme_loop i rawURL (c # cs) =
     (if is_lower c \<or> is_upper c then getScheme_loop (Suc i) rawURL cs
      else if is_digit c \<or> c = CHR ''+'' \<or> c = CHR ''-'' \<or> c = CHR ''.'' then
        (if i = 0 then Inr ([], rawURL) else getScheme_loop (Suc i) rawURL cs)
      else if c = CHR '':'' then
        (if i = 0 then Inl MissingProtocolScheme
         else Inr (take i rawURL, drop (Suc i) rawURL))
      else Inr ([], rawURL))"

definition getScheme :: "string \<Rightarrow> url_error + (string \<times> string)" where
  "getScheme rawURL = getScheme_loop 0 rawURL rawURL"

text \<open>\<^verbatim>\<open>validOptionalPort(port)\<close>: empty, or a colon followed by digits only.\<close>

definition validOptionalPort :: "string \<Rightarrow> bool" where
  "validOptionalPort port =
     (case port of
        [] \<Rightarrow> True
      | c # ds \<Rightarrow> c = CHR '':'' \<and> list_all is_digit ds)"

text \<open>\<^verbatim>\<open>validUserinfo(s)\<close> ranges over the runes of \<^verbatim>\<open>s\<close> and accepts ASCII ones only, so it
  holds exactly when every byte is one of the accepted ASCII bytes.\<close>

definition validUserinfo :: "string \<Rightarrow> bool" where
  "validUserinfo s =
     list_all (\<lambda>r. is_upper r \<or> is_lower r \<or> is_digit r \<or> r \<in> set ''-._:~!$&'()*+,;=%@'') s"

text \<open>\<^verbatim>\<open>parseHost(host)\<close>.\<close>

definition parseHost :: "string \<Rightarrow> url_error + string" where
  "parseHost host =
     (if strings_HasPrefix host ''['' then
        (case strings_LastIndex host '']'' of
           None \<Rightarrow> Inl MissingBracket
         | Some i \<Rightarrow>
             if \<not> validOptionalPort (drop (Suc i) host) then Inl InvalidPort
             else
               (case strings_Index (take i host) ''%25'' of
                  Some zone \<Rightarrow>
                    (case unescape (take zone host) encodeHost of
                       Inl e \<Rightarrow> Inl e
                     | Inr host1 \<Rightarrow>
                         (case unescape (drop zone (take i host)) encodeZone of
                            Inl e \<Rightarrow> Inl e
                          | Inr host2 \<Rightarrow>
                              (case unescape (drop i host) encodeHost of
                                 Inl e \<Rightarrow> Inl e
                               | Inr host3 \<Rightarrow> Inr (host1 @ host2 @ host3))))
                | None \<Rightarrow> unescape host encodeHost))
      else
        (case strings_LastIndex host '':'' of
           Some i \<Rightarrow>
             if \<not> validOptionalPort (drop i host) then Inl InvalidPort
             else unescape host encodeHost
         | None \<Rightarrow> unescape host encodeHost))"

text \<open>\<^verbatim>\<open>parseAuthority(authority)\<close>: the host is parsed first, then the userinfo before the
  last \<^verbatim>\<open>@\<close>.\<close>

definition parseAuthority :: "string \<Rightarrow> url_error + (Userinfo option \<times> string)" where
  "parseAuthority authority =
     (let i = strings_LastIndex authority ''@'' in
      case (case i of None \<Rightarrow> parseHost authority
                    | Some j \<Rightarrow> parseHost (drop (Suc j) authority)) of
        Inl e \<Rightarrow> Inl e
      | Inr host \<Rightarrow>
          (case i of
             None \<Rightarrow> Inr (None, host)
           | Some j \<Rightarrow>
               let userinfo = take j authority in
               if \<not> validUserinfo userinfo then Inl InvalidUserinfo
               else if \<not> strings_Contains userinfo '':'' then
                 (case unescape userinfo encodeUserPassword of
                    Inl e \<Rightarrow> Inl e
                  | Inr name \<Rightarrow>
                      Inr (Some \<lparr>username = name, password = [], passwordSet = False\<rparr>, host))
               else
                 (case strings_Cut userinfo '':'' of
                    (name0, pass0, _) \<Rightarrow>
                      (case unescape name0 encodeUserPassword of
                         Inl e \<Rightarrow> Inl e
                       | Inr name \<Rightarrow>
                           (case unescape pass0 encodeUserPassword of
                              Inl e \<Rightarrow> Inl e
                            | Inr pass \<Rightarrow>
                                Inr (Some \<lparr>username = name, password = pass, passwordSet = True\<rparr>,
                                     host))))))"

text \<open>\<^verbatim>\<open>(*URL).setPath\<close> and \<^verbatim>\<open>(*URL).setFragment\<close>, without the raw hints.\<close>

definition setPath :: "URL \<Rightarrow> string \<Rightarrow> url_error + URL" where
  "setPath u p =
     (case unescape p encodePath of
        Inl e \<Rightarrow> Inl e
      | Inr path \<Rightarrow> Inr (u\<lparr>Path := path\<rparr>))"

definition setFragment :: "URL \<Rightarrow> string \<Rightarrow> url_error + URL" where
  "setFragment u f =
     (case unescape f encodeFragment of
        Inl e \<Rightarrow> Inl e
      | Inr frag \<Rightarrow> Inr (u\<lparr>Fragment := frag\<rparr>))"

text \<open>
  \<^verbatim>\<open>parse(rawURL, viaRequest)\<close>, in three pieces that follow the source top to bottom:
  \<open>split_query\<close> is the statement that takes the query off \<^verbatim>\<open>rest\<close>, \<open>parse_rest\<close> is
  everything after it, \<open>parse\<close> is the whole.
\<close>

definition split_query :: "URL \<Rightarrow> string \<Rightarrow> URL \<times> string" where
  "split_query url rest =
     (if strings_HasSuffix rest ''?'' \<and> strings_Count rest CHR ''?'' = 1
      then (url\<lparr>ForceQuery := True\<rparr>, take (length rest - 1) rest)
      else (case strings_Cut rest ''?'' of (r, q, _) \<Rightarrow> (url\<lparr>RawQuery := q\<rparr>, r)))"

definition parse_rest :: "URL \<Rightarrow> string \<Rightarrow> bool \<Rightarrow> url_error + URL" where
  "parse_rest url rest viaRequest =
     (if \<not> strings_HasPrefix rest ''/'' \<and> Scheme url \<noteq> [] then Inr (url\<lparr>Opaque := rest\<rparr>)
      else if \<not> strings_HasPrefix rest ''/'' \<and> viaRequest then Inl InvalidURIForRequest
      else if \<not> strings_HasPrefix rest ''/''
              \<and> strings_Contains (fst (strings_Cut rest ''/'')) '':''
        then Inl FirstPathSegmentColon
      else if (Scheme url \<noteq> [] \<or> \<not> viaRequest \<and> \<not> strings_HasPrefix rest ''///'')
              \<and> strings_HasPrefix rest ''//'' then
        (let authority0 = drop 2 rest;
             (authority, rest') =
               (case strings_Index authority0 ''/'' of
                  Some i \<Rightarrow> (take i authority0, drop i authority0)
                | None \<Rightarrow> (authority0, []))
         in case parseAuthority authority of
              Inl e \<Rightarrow> Inl e
            | Inr (user, host) \<Rightarrow> setPath (url\<lparr>User := user, Host := host\<rparr>) rest')
      else if Scheme url \<noteq> [] \<and> strings_HasPrefix rest ''/''
        then setPath (url\<lparr>OmitHost := True\<rparr>) rest
      else setPath url rest)"

definition parse :: "string \<Rightarrow> bool \<Rightarrow> url_error + URL" where
  "parse rawURL viaRequest =
     (if stringContainsCTLByte rawURL then Inl InvalidControlCharacter
      else if rawURL = [] \<and> viaRequest then Inl EmptyURL
      else if rawURL = ''*'' then Inr (new_URL\<lparr>Path := ''*''\<rparr>)
      else
        (case getScheme rawURL of
           Inl e \<Rightarrow> Inl e
         | Inr (scheme, rest0) \<Rightarrow>
             (case split_query (new_URL\<lparr>Scheme := strings_ToLower scheme\<rparr>) rest0 of
                (url, rest) \<Rightarrow> parse_rest url rest viaRequest)))"

text \<open>\<^verbatim>\<open>url.Parse(rawURL)\<close>: the fragment is cut off first.\<close>

definition url_Parse :: "string \<Rightarrow> url_error + URL" where
  "url_Parse rawURL =
     (case strings_Cut rawURL ''#'' of
        (u, frag, _) \<Rightarrow>
          (case parse u False of
             Inl e \<Rightarrow> Inl e
           | Inr url \<Rightarrow> if frag = [] then Inr url else setFragment url frag))"

text \<open>\<^verbatim>\<open>splitHostPort\<close>, and the two methods of \<^verbatim>\<open>URL\<close> built on it.\<close>

definition splitHostPort :: "string \<Rightarrow> string \<times> string" where
  "splitHostPort hostPort =
     (let (host, port) =
            (case strings_LastIndex hostPort '':'' of
               Some colon \<Rightarrow>
                 if validOptionalPort (drop colon hostPort)
                 then (take colon hostPort, drop (Suc colon) hostPort)
                 else (hostPort, [])
             | None \<Rightarrow> (hostPort, []))
      in if strings_HasPrefix host ''['' \<and> strings_HasSuffix host '']''
         then (take (length host - 2) (drop 1 host), port)
         else (host, port))"

definition Hostname :: "URL \<Rightarrow> string" where
  "Hostname u = fst (splitHostPort (Host u))"

definition Port :: "URL \<Rightarrow> string" where
  "Port u = snd (splitHostPort (Host u))"

subsection \<open>The network and the process, as the program sees them\<close>

text \<open>
  What leaves the program is recorded as a trace of events, in the order of the calls:
  \<^verbatim>\<open>net.Dial(network, address)\<close>, \<^verbatim>\<open>conn.Write(bytes)\<close> (through \<^verbatim>\<open>fmt.Fprintf\<close>),
  \<^verbatim>\<open>conn.Read\<close> into a buffer of a given length, \<^verbatim>\<open>conn.Close()\<close>, and the bytes written to
  standard output (\<^verbatim>\<open>fmt.Println\<close>) and to standard error (Go's builtin \<^verbatim>\<open>println\<close>).
\<close>

datatype event =
    Dial string string
  | Write string
  | Read nat
  | Close
  | Stdout string
  | Stderr string

text \<open>The error of a \<^verbatim>\<open>conn.Read\<close>: \<^verbatim>\<open>io.EOF\<close>, or any other.\<close>

datatype io_error = EOF | ReadFault

text \<open>
  What the peer has done by the time the one \<^verbatim>\<open>Read\<close> returns: the bytes it has delivered,
  and whether the connection broke instead (a reset, say). A \<^verbatim>\<open>Read\<close> that never returns,
  from a peer that stays silent and keeps the connection open, is not a run of this model.
\<close>

record peer =
  pending :: string
  broken :: bool

text \<open>
  The world outside: which addresses accept a connection, what the peer at an address
  does with the bytes sent to it, and the bytes that peer goes on to send which arrive
  only after the one \<^verbatim>\<open>Read\<close> has returned (a second write of the server, say). The
  program has no second \<^verbatim>\<open>Read\<close>, so nothing in it looks at these later bytes.
\<close>

record world =
  connects :: "string \<Rightarrow> string \<Rightarrow> bool"
  answers :: "string \<Rightarrow> string \<Rightarrow> peer"
  later :: "string \<Rightarrow> string \<Rightarrow> string"

text \<open>Everything the server at an address sends on the connection, in answer to the
  bytes sent to it: what has arrived when the \<^verbatim>\<open>Read\<close> returns, then the rest.\<close>

definition sends :: "world \<Rightarrow> string \<Rightarrow> string \<Rightarrow> string" where
  "sends w address req = pending (answers w address req) @ later w address req"

record conn =
  remote :: string
  sent :: string

definition conn_Write :: "conn \<Rightarrow> string \<Rightarrow> conn" where
  "conn_Write c bs = c\<lparr>sent := sent c @ bs\<rparr>"

text \<open>
  \<^verbatim>\<open>conn.Read(buf)\<close> on a TCP connection, for a buffer that is not empty: it copies at most
  \<^verbatim>\<open>len(buf)\<close> of the pending bytes to the front of \<^verbatim>\<open>buf\<close> and returns their number; a
  read of zero bytes is returned as \<^verbatim>\<open>io.EOF\<close> (the peer closed and nothing is pending).
  The result is \<^verbatim>\<open>n\<close>, \<^verbatim>\<open>err\<close> and the buffer afterwards.
\<close>

definition conn_Read :: "world \<Rightarrow> conn \<Rightarrow> string \<Rightarrow> nat \<times> io_error option \<times> string" where
  "conn_Read w c buf =
     (let p = answers w (remote c) (sent c) in
      if broken p then (0, Some ReadFault, buf)
      else if pending p = [] then (0, Some EOF, buf)
      else (let n = min (length buf) (length (pending p))
            in (n, None, take n (pending p) @ drop n buf)))"

subsection \<open>\<^verbatim>\<open>rootCmd.Run\<close>\<close>

text \<open>The values \<^verbatim>\<open>Run\<close> panics with: the error of \<^verbatim>\<open>url.Parse\<close> (line 31), of \<^verbatim>\<open>net.Dial\<close>
  (line 48) and of \<^verbatim>\<open>conn.Read\<close> (line 58); and Go's own panic for \<^verbatim>\<open>args[0]\<close> on an empty
  slice.\<close>

datatype error =
    ParseError url_error
  | DialError
  | ReadError io_error
  | IndexOutOfRange

datatype outcome = Returned | Panic error

text \<open>The three locals \<^verbatim>\<open>host\<close>, \<^verbatim>\<open>port\<close>, \<^verbatim>\<open>path\<close> of lines 34 to 40.\<close>

record target =
  host :: string
  port :: string
  path :: string

definition CRLF :: string where
  "CRLF = [CHR 0x0D, CHR 0x0A]"

definition LF :: string where
  "LF = [CHR 0x0A]"

text \<open>Lines 29 to 40: parse, take host, port and path, and default the port.\<close>

definition resolve :: "string \<Rightarrow> url_error + target" where
  "resolve rawURL =
     (case url_Parse rawURL of
        Inl e \<Rightarrow> Inl e
      | Inr u \<Rightarrow>
          Inr \<lparr>host = Hostname u,
               port = (if Port u = [] then ''80'' else Port u),
               path = Path u\<rparr>)"

text \<open>Go's builtin \<^verbatim>\<open>println(a, b)\<close>: the arguments separated by a space, then a newline, on
  standard error.\<close>

definition println2 :: "string \<Rightarrow> string \<Rightarrow> event" where
  "println2 a b = Stderr (a @ '' '' @ b @ LF)"

text \<open>Line 53: \<^verbatim>\<open>"GET %s HTTP/1.0\r\nHost: %s\r\n\r\n"\<close> with \<^verbatim>\<open>path\<close> and \<^verbatim>\<open>host\<close>.\<close>

definition request :: "string \<Rightarrow> string \<Rightarrow> string" where
  "request p h = ''GET '' @ p @ '' HTTP/1.0'' @ CRLF @ ''Host: '' @ h @ CRLF @ CRLF"

text \<open>
  Lines 53 to 61, the part of \<^verbatim>\<open>Run\<close> that runs under the deferred \<^verbatim>\<open>conn.Close()\<close>: one
  write, one read into 1024 bytes, then a panic or the print of \<^verbatim>\<open>string(buf[:n])\<close>. The
  error of the write is not looked at by the source.
\<close>

definition exchange :: "world \<Rightarrow> conn \<Rightarrow> target \<Rightarrow> outcome \<times> event list" where
  "exchange w c t =
     (let c1 = conn_Write c (request (path t) (host t));
          buf = replicate 1024 (CHR 0x00);
          (n, err, buf') = conn_Read w c1 buf
      in case err of
           Some e \<Rightarrow> (Panic (ReadError e), [Write (request (path t) (host t)), Read (length buf)])
         | None \<Rightarrow>
             (Returned,
              [Write (request (path t) (host t)), Read (length buf), Stdout (take n buf' @ LF)]))"

text \<open>
  \<^verbatim>\<open>Run\<close>. A deferred call runs when the function returns and when it panics, so
  \<^verbatim>\<open>Close\<close> follows the events of \<open>exchange\<close> whatever its outcome; before the \<^verbatim>\<open>defer\<close>
  statement is reached (the panics of lines 31 and 48) nothing is deferred.
\<close>

definition Run :: "world \<Rightarrow> string list \<Rightarrow> outcome \<times> event list" where
  "Run w args =
     (case args of
        [] \<Rightarrow> (Panic IndexOutOfRange, [])
      | a # _ \<Rightarrow>
          (case resolve a of
             Inl e \<Rightarrow> (Panic (ParseError e), [])
           | Inr t \<Rightarrow>
               (let logs = [println2 ''Host:'' (host t), println2 ''Port:'' (port t),
                            println2 ''Path:'' (path t)];
                    address = host t @ '':'' @ port t
                in if \<not> connects w ''tcp'' address
                   then (Panic DialError, logs @ [Dial ''tcp'' address])
                   else (let (out, evs) = exchange w \<lparr>remote = address, sent = []\<rparr> t
                         in (out, logs @ [Dial ''tcp'' address] @ evs @ [Close])))))"

text \<open>
  Before any code of \<^verbatim>\<open>root.go\<close> runs, \<^verbatim>\<open>rootCmd.Execute()\<close> lets cobra take the flags out
  of the process arguments: \<^verbatim>\<open>-t\<close> and \<^verbatim>\<open>--toggle\<close>, registered in \<^verbatim>\<open>init\<close> (line 83), and
  cobra's own \<^verbatim>\<open>-h\<close> and \<^verbatim>\<open>--help\<close>. Cobra is not part of the repository, so what it makes of
  the arguments is the input here: an error in the flags, a request for help, or the
  positional arguments that are left.
\<close>

datatype command_line =
    FlagError
  | HelpRequested
  | Positional "string list"

text \<open>
  \<^verbatim>\<open>Execute\<close>. On an error in the flags \<^verbatim>\<open>rootCmd.Execute()\<close> returns the error and
  \<^verbatim>\<open>Execute\<close> calls \<^verbatim>\<open>os.Exit(1)\<close>; on a request for help cobra prints the help and
  \<^verbatim>\<open>rootCmd.Execute()\<close> returns \<^verbatim>\<open>nil\<close>; in both cases \<^verbatim>\<open>Run\<close> is not called. On positional
  arguments \<^verbatim>\<open>cobra.ExactArgs(1)\<close> (line 25) makes \<^verbatim>\<open>rootCmd.Execute()\<close> return an error
  unless there is exactly one, and otherwise \<^verbatim>\<open>Run\<close> runs on them. The result is the exit
  status of the process and the events of \<^verbatim>\<open>Run\<close>; what cobra itself prints (its error
  message and usage, its help) is not recorded.
\<close>

text \<open>Modelled from the spec: \<^verbatim>\<open>main.go\<close>, which is not among the sources, calls
  \<^verbatim>\<open>cmd.Execute()\<close> and returns, so the process exits with status 0 when \<^verbatim>\<open>Run\<close> returns;
  the Go runtime ends a process that panics with status 2.\<close>

definition exit_status :: "outcome \<Rightarrow> nat" where
  "exit_status out = (case out of Returned \<Rightarrow> 0 | Panic _ \<Rightarrow> 2)"

definition Execute :: "world \<Rightarrow> command_line \<Rightarrow> nat \<times> event list" where
  "Execute w cl =
     (case cl of
        FlagError \<Rightarrow> (1, [])
      | HelpRequested \<Rightarrow> (0, [])
      | Positional args \<Rightarrow>
          if length args \<noteq> 1 then (1, [])
          else (case Run w args of (out, evs) \<Rightarrow> (exit_status out, evs)))"

text \<open>Readings of a trace: the chunks written to the connection, the text on standard
  output, the connections attempted, and the number of \<^verbatim>\<open>Close\<close> calls.\<close>

fun written :: "event list \<Rightarrow> string list" where
  "written [] = []"
| "written (Write bs # evs) = bs # written evs"
| "written (_ # evs) = written evs"

fun stdout :: "event list \<Rightarrow> string" where
  "stdout [] = []"
| "stdout (Stdout bs # evs) = bs @ stdout evs"
| "stdout (_ # evs) = stdout evs"

fun dialed :: "event list \<Rightarrow> (string \<times> string) list" where
  "dialed [] = []"
| "dialed (Dial n a # evs) = (n, a) # dialed evs"
| "dialed (_ # evs) = dialed evs"

fun closes :: "event list \<Rightarrow> nat" where
  "closes [] = 0"
| "closes (Close # evs) = Suc (closes evs)"
| "closes (_ # evs) = closes evs"

text \<open>The events that touch the network, in order.\<close>

fun network :: "event list \<Rightarrow> event list" where
  "network [] = []"
| "network (Stdout _ # evs) = network evs"
| "network (Stderr _ # evs) = network evs"
| "network (e # evs) = e # network evs"

subsection \<open>Worlds and URL shapes used in the statements\<close>

text \<open>
  Five worlds. \<open>stub_server bs\<close> accepts every connection, ignores what it is sent,
  delivers the bytes \<open>bs\<close> and closes; \<open>echo_server\<close> accepts every connection, sends
  back the bytes it was sent and closes; \<open>two_writes bs cs\<close> accepts every connection
  and sends \<open>bs\<close>, which has arrived when the \<^verbatim>\<open>Read\<close> returns, and then \<open>cs\<close>, which
  arrives later; \<open>broken_server\<close> accepts every connection and breaks it before any byte
  arrives; \<open>no_server\<close> accepts no connection.
\<close>

definition stub_server :: "string \<Rightarrow> world" where
  "stub_server bs = \<lparr>connects = (\<lambda>network address. True),
     answers = (\<lambda>address req. \<lparr>pending = bs, broken = False\<rparr>),
     later = (\<lambda>address req. [])\<rparr>"

definition echo_server :: world where
  "echo_server = \<lparr>connects = (\<lambda>network address. True),
     answers = (\<lambda>address req. \<lparr>pending = req, broken = False\<rparr>),
     later = (\<lambda>address req. [])\<rparr>"

definition two_writes :: "string \<Rightarrow> string \<Rightarrow> world" where
  "two_writes bs cs = \<lparr>connects = (\<lambda>network address. True),
     answers = (\<lambda>address req. \<lparr>pending = bs, broken = False\<rparr>),
     later = (\<lambda>address req. cs)\<rparr>"

definition broken_server :: world where
  "broken_server = \<lparr>connects = (\<lambda>network address. True),
     answers = (\<lambda>address req. \<lparr>pending = [], broken = True\<rparr>),
     later = (\<lambda>address req. [])\<rparr>"

definition no_server :: world where
  "no_server = \<lparr>connects = (\<lambda>network address. False),
     answers = (\<lambda>address req. \<lparr>pending = [], broken = False\<rparr>),
     later = (\<lambda>address req. [])\<rparr>"

text \<open>
  The shapes of URL text the statements below speak of, after RFC 3986. A scheme is a
  letter followed by letters, digits, \<^verbatim>\<open>+\<close>, \<^verbatim>\<open>-\<close> and \<^verbatim>\<open>.\<close>; a registered name is made of
  unreserved bytes; a port is one or more digits; a path is empty or starts with \<^verbatim>\<open>/\<close> and
  has no control byte, \<^verbatim>\<open>?\<close>, \<^verbatim>\<open>#\<close> or \<^verbatim>\<open>%\<close> in it.
\<close>

definition scheme_byte :: "char \<Rightarrow> bool" where
  "scheme_byte c = (is_lower c \<or> is_upper c \<or> is_digit c \<or> c = CHR ''+'' \<or> c = CHR ''-'' \<or> c = CHR ''.'')"

definition is_scheme :: "string \<Rightarrow> bool" where
  "is_scheme s = (case s of [] \<Rightarrow> False | c # cs \<Rightarrow> (is_lower c \<or> is_upper c) \<and> list_all scheme_byte cs)"

definition host_byte :: "char \<Rightarrow> bool" where
  "host_byte c = (is_lower c \<or> is_upper c \<or> is_digit c \<or> c \<in> set ''-._~'')"

definition is_reg_name :: "string \<Rightarrow> bool" where
  "is_reg_name h = list_all host_byte h"

definition is_port :: "string \<Rightarrow> bool" where
  "is_port p = (p \<noteq> [] \<and> list_all is_digit p)"

definition path_byte :: "char \<Rightarrow> bool" where
  "path_byte c = (\<not> (c < CHR '' '' \<or> c = CHR 0x7F) \<and> c \<notin> set ''?#%'')"

definition is_abs_path :: "string \<Rightarrow> bool" where
  "is_abs_path t = (case t of [] \<Rightarrow> True | c # cs \<Rightarrow> c = CHR ''/'' \<and> list_all path_byte cs)"

text \<open>The three values the program reads from a parsed URL, port default included.\<close>

definition target_of :: "URL \<Rightarrow> target" where
  "target_of u = \<lparr>host = Hostname u, port = (if Port u = [] then ''80'' else Port u), path = Path u\<rparr>"

section \<open>Properties\<close>

subsection \<open>Bytes, and searching in strings\<close>

lemma is_lower_nat: "is_lower c = (97 \<le> (of_char c :: nat) \<and> (of_char c :: nat) \<le> 122)"
  by (simp add: is_lower_def less_eq_char_def)

lemma is_upper_nat: "is_upper c = (65 \<le> (of_char c :: nat) \<and> (of_char c :: nat) \<le> 90)"
  by (simp add: is_upper_def less_eq_char_def)

lemma is_digit_nat: "is_digit c = (48 \<le> (of_char c :: nat) \<and> (of_char c :: nat) \<le> 57)"
  by (simp add: is_digit_def less_eq_char_def)

lemma ctl_nat: "(c < CHR '' '' \<or> c = CHR 0x7F) = ((of_char c :: nat) < 32 \<or> (of_char c :: nat) = 127)"
proof -
  have "(c = CHR 0x7F) = ((of_char c :: nat) = of_char (CHR 0x7F))"
    by (rule of_char_eq_iff [symmetric])
  then show ?thesis by (simp add: less_char_def)
qed

lemmas byte_nat = is_lower_nat is_upper_nat is_digit_nat

lemma strings_Index_byte:
  "strings_Index s [c] = (if c \<in> set s then Some (length (takeWhile (\<lambda>b. b \<noteq> c) s)) else None)"
  by (induction s) auto

lemma strings_Index_skip:
  "c \<notin> set pre \<Longrightarrow> strings_Index (pre @ s) [c] = map_option (\<lambda>i. length pre + i) (strings_Index s [c])"
proof (induction pre)
  case Nil
  show ?case by (cases "strings_Index s [c]") simp_all
next
  case (Cons a pre)
  then show ?case by (cases "strings_Index s [c]") auto
qed

lemma strings_Cut_skip:
  "c \<notin> set pre \<Longrightarrow> strings_Cut (pre @ s) [c] = (case strings_Cut s [c] of (u, f, b) \<Rightarrow> (pre @ u, f, b))"
  by (simp add: strings_Cut_def strings_Index_skip split: option.splits)

lemma strings_Cut_absent:
  "c \<notin> set s \<Longrightarrow> strings_Cut s [c] = (s, [], False)"
  by (simp add: strings_Cut_def strings_Index_byte)

lemma strings_Cut_first:
  "c \<notin> set pre \<Longrightarrow> strings_Cut (pre @ c # s) [c] = (pre, s, True)"
  by (simp add: strings_Cut_def strings_Index_byte takeWhile_append)

subsection \<open>The scheme of a URL\<close>

lemma getScheme_loop_scheme:
  "list_all scheme_byte cs \<Longrightarrow> 0 < i \<Longrightarrow> length pre = i \<Longrightarrow>
     getScheme_loop i (pre @ cs @ CHR '':'' # rest) (cs @ CHR '':'' # rest) = Inr (pre @ cs, rest)"
proof (induction cs arbitrary: i pre)
  case Nil
  then show ?case by (simp add: is_lower_def is_upper_def is_digit_def)
next
  case (Cons c cs)
  from Cons.prems have "getScheme_loop (Suc i) ((pre @ [c]) @ cs @ CHR '':'' # rest) (cs @ CHR '':'' # rest)
      = Inr ((pre @ [c]) @ cs, rest)"
    by (intro Cons.IH) auto
  with Cons.prems show ?case by (auto simp: scheme_byte_def)
qed

lemma getScheme_scheme:
  assumes "is_scheme s"
  shows "getScheme (s @ CHR '':'' # rest) = Inr (s, rest)"
proof -
  from assms obtain c cs where s: "s = c # cs" and c: "is_lower c \<or> is_upper c" and cs: "list_all scheme_byte cs"
    by (auto simp: is_scheme_def split: list.splits)
  from getScheme_loop_scheme [OF cs, of "Suc 0" "[c]" rest] c s
  show ?thesis by (auto simp: getScheme_def)
qed

lemma scheme_byte_not_ctl: "scheme_byte c \<Longrightarrow> \<not> (c < CHR '' '' \<or> c = CHR 0x7F)"
  unfolding ctl_nat by (auto simp: scheme_byte_def byte_nat)

lemma scheme_byte_not_hash: "scheme_byte c \<Longrightarrow> c \<noteq> CHR ''#''"
  by (auto simp: scheme_byte_def byte_nat)

lemma is_scheme_bytes: "is_scheme s \<Longrightarrow> list_all scheme_byte s \<and> s \<noteq> []"
  by (auto simp: is_scheme_def scheme_byte_def split: list.splits)

lemma is_scheme_no_hash: "is_scheme s \<Longrightarrow> CHR ''#'' \<notin> set s"
  using is_scheme_bytes scheme_byte_not_hash by (auto simp: list_all_iff)

lemma is_scheme_no_ctl: "is_scheme s \<Longrightarrow> \<not> stringContainsCTLByte s"
  using is_scheme_bytes scheme_byte_not_ctl by (auto simp: list_all_iff stringContainsCTLByte_def list_ex_iff)

lemma stringContainsCTLByte_append:
  "stringContainsCTLByte (a @ b) = (stringContainsCTLByte a \<or> stringContainsCTLByte b)"
  by (auto simp: stringContainsCTLByte_def list_ex_iff)

lemma stringContainsCTLByte_Cons:
  "stringContainsCTLByte (c # b) = ((c < CHR '' '' \<or> c = CHR 0x7F) \<or> stringContainsCTLByte b)"
  by (auto simp: stringContainsCTLByte_def)

lemma parse_rest_Scheme:
  "x \<noteq> [] \<Longrightarrow> y \<noteq> [] \<Longrightarrow>
     parse_rest (url\<lparr>Scheme := x\<rparr>) r v = map_sum id (Scheme_update (\<lambda>_. x)) (parse_rest (url\<lparr>Scheme := y\<rparr>) r v)"
  by (simp add: parse_rest_def setPath_def Let_def split: sum.splits option.splits prod.splits)

lemma split_query_Scheme:
  "split_query (url\<lparr>Scheme := x\<rparr>) r = (case split_query url r of (u, r') \<Rightarrow> (u\<lparr>Scheme := x\<rparr>, r'))"
  by (simp add: split_query_def split: prod.splits)

lemma parse_scheme:
  assumes "is_scheme s"
  shows "parse (s @ CHR '':'' # rest) False =
     (if stringContainsCTLByte rest then Inl InvalidControlCharacter
      else case split_query (new_URL\<lparr>Scheme := strings_ToLower s\<rparr>) rest of
             (url, r) \<Rightarrow> parse_rest url r False)"
proof -
  from assms have ne: "s \<noteq> []" by (simp add: is_scheme_bytes)
  then have star: "s @ CHR '':'' # rest \<noteq> ''*''" by (cases s) auto
  from assms have "stringContainsCTLByte (s @ CHR '':'' # rest) = stringContainsCTLByte rest"
    by (simp add: stringContainsCTLByte_append stringContainsCTLByte_Cons is_scheme_no_ctl)
  then show ?thesis
    by (simp add: parse_def star getScheme_scheme [OF assms])
qed

lemma parse_scheme_indep:
  assumes "is_scheme s1" "is_scheme s2"
  shows "parse (s1 @ CHR '':'' # rest) False
     = map_sum id (Scheme_update (\<lambda>_. strings_ToLower s1)) (parse (s2 @ CHR '':'' # rest) False)"
proof -
  from assms have ne: "strings_ToLower s1 \<noteq> []" "strings_ToLower s2 \<noteq> []"
    by (auto simp: strings_ToLower_def is_scheme_bytes)
  obtain u r where sq: "split_query new_URL rest = (u, r)" by (cases "split_query new_URL rest")
  show ?thesis
    using parse_rest_Scheme [OF ne, of u r False]
    by (simp add: parse_scheme assms split_query_Scheme sq)
qed

lemma setFragment_Scheme:
  "setFragment (u\<lparr>Scheme := x\<rparr>) f = map_sum id (Scheme_update (\<lambda>_. x)) (setFragment u f)"
  by (simp add: setFragment_def split: sum.splits)

lemma url_Parse_scheme_indep:
  assumes "is_scheme s1" "is_scheme s2"
  shows "url_Parse (s1 @ CHR '':'' # rest)
     = map_sum id (Scheme_update (\<lambda>_. strings_ToLower s1)) (url_Parse (s2 @ CHR '':'' # rest))"
proof -
  obtain u f b where cut: "strings_Cut rest ''#'' = (u, f, b)" by (cases "strings_Cut rest ''#''") auto
  have c1: "strings_Cut (s1 @ CHR '':'' # rest) ''#'' = (s1 @ CHR '':'' # u, f, b)"
    using strings_Cut_skip [of "CHR ''#''" "s1 @ '':''" rest] assms(1) cut
    by (simp add: is_scheme_no_hash)
  have c2: "strings_Cut (s2 @ CHR '':'' # rest) ''#'' = (s2 @ CHR '':'' # u, f, b)"
    using strings_Cut_skip [of "CHR ''#''" "s2 @ '':''" rest] assms(2) cut
    by (simp add: is_scheme_no_hash)
  show ?thesis
    using parse_scheme_indep [OF assms, of u]
    by (cases "parse (s2 @ CHR '':'' # u) False")
       (simp_all add: url_Parse_def c1 c2 setFragment_Scheme)
qed

lemma resolve_scheme_indep:
  assumes "is_scheme s1" "is_scheme s2"
  shows "resolve (s1 @ CHR '':'' # rest) = resolve (s2 @ CHR '':'' # rest)"
  using url_Parse_scheme_indep [OF assms, of rest]
  by (cases "url_Parse (s2 @ CHR '':'' # rest)")
     (simp_all add: resolve_def Hostname_def Port_def)

lemma Run_resolve_cong:
  "resolve a = resolve b \<Longrightarrow> Run w (a # args) = Run w (b # args)"
  by (simp add: Run_def)

subsection \<open>The query of a URL\<close>

lemma getScheme_loop_query:
  "CHR ''?'' \<notin> set cs \<Longrightarrow> length pre = i \<Longrightarrow>
     getScheme_loop i (pre @ cs @ CHR ''?'' # q) (cs @ CHR ''?'' # q)
       = (case getScheme_loop i (pre @ cs) cs of
            Inl e \<Rightarrow> Inl e
          | Inr (s, r) \<Rightarrow> Inr (s, r @ CHR ''?'' # q))"
proof (induction cs arbitrary: i pre)
  case Nil
  then show ?case by (simp add: is_lower_def is_upper_def is_digit_def)
next
  case (Cons c cs)
  from Cons.prems have ih: "getScheme_loop (Suc i) (pre @ c # cs @ CHR ''?'' # q) (cs @ CHR ''?'' # q)
       = (case getScheme_loop (Suc i) (pre @ c # cs) cs of
            Inl e \<Rightarrow> Inl e
          | Inr (s, r) \<Rightarrow> Inr (s, r @ CHR ''?'' # q))"
    using Cons.IH [of "pre @ [c]" "Suc i"] by simp
  show ?case
  proof (cases "is_lower c \<or> is_upper c")
    case True
    with ih show ?thesis by simp
  next
    case False
    show ?thesis
    proof (cases "is_digit c \<or> c = CHR ''+'' \<or> c = CHR ''-'' \<or> c = CHR ''.''")
      case True
      with False ih show ?thesis by (cases "i = 0") auto
    next
      case d: False
      with False Cons.prems(2) show ?thesis by (cases "i = 0") auto
    qed
  qed
qed

lemma getScheme_query:
  "CHR ''?'' \<notin> set u \<Longrightarrow>
     getScheme (u @ CHR ''?'' # q)
       = (case getScheme u of Inl e \<Rightarrow> Inl e | Inr (s, r) \<Rightarrow> Inr (s, r @ CHR ''?'' # q))"
  using getScheme_loop_query [of u "[]" 0 q] by (simp add: getScheme_def)

lemma getScheme_loop_rest:
  "getScheme_loop i raw cs = Inr (s, r) \<Longrightarrow> set r \<subseteq> set raw"
  by (induction i raw cs rule: getScheme_loop.induct)
     (auto split: if_splits dest: in_set_dropD)

lemma getScheme_rest: "getScheme u = Inr (s, r) \<Longrightarrow> set r \<subseteq> set u"
  by (auto simp: getScheme_def dest: getScheme_loop_rest)

lemma split_query_absent:
  assumes "CHR ''?'' \<notin> set r"
  shows "split_query url r = (url\<lparr>RawQuery := []\<rparr>, r)"
proof -
  from assms have "\<not> suffix ''?'' r" by (auto simp: suffix_def)
  with assms show ?thesis
    by (simp add: split_query_def strings_HasSuffix_def strings_Cut_absent)
qed

lemma split_query_present:
  assumes "CHR ''?'' \<notin> set r"
  shows "split_query url (r @ CHR ''?'' # q)
     = ((if q = [] then url\<lparr>ForceQuery := True\<rparr> else url\<lparr>RawQuery := q\<rparr>), r)"
proof (cases "q = []")
  case True
  with assms show ?thesis
    by (simp add: split_query_def strings_HasSuffix_def strings_Count_def suffix_def filter_empty_conv)
next
  case False
  have "\<not> (suffix ''?'' (r @ CHR ''?'' # q) \<and> strings_Count (r @ CHR ''?'' # q) CHR ''?'' = 1)"
  proof
    assume a: "suffix ''?'' (r @ CHR ''?'' # q) \<and> strings_Count (r @ CHR ''?'' # q) CHR ''?'' = 1"
    then obtain zs where "r @ CHR ''?'' # q = zs @ ''?''" by (auto simp: suffix_def)
    then have "last (r @ CHR ''?'' # q) = CHR ''?''" by simp
    with False have "last q = CHR ''?''" by simp
    with False have "CHR ''?'' \<in> set q" using last_in_set [of q] by simp
    then have "filter (\<lambda>b. b = CHR ''?'') q \<noteq> []" by (simp add: filter_empty_conv)
    with a show False by (simp add: strings_Count_def)
  qed
  with False assms show ?thesis
    by (simp add: split_query_def strings_HasSuffix_def strings_Cut_first)
qed

lemma parse_rest_RawQuery:
  "parse_rest (RawQuery_update f url) r v = map_sum id (RawQuery_update f) (parse_rest url r v)"
  by (simp add: parse_rest_def setPath_def Let_def split: sum.splits option.splits prod.splits)

lemma parse_rest_ForceQuery:
  "parse_rest (ForceQuery_update f url) r v = map_sum id (ForceQuery_update f) (parse_rest url r v)"
  by (simp add: parse_rest_def setPath_def Let_def split: sum.splits option.splits prod.splits)

lemma resolve_target_of: "resolve a = map_sum id target_of (url_Parse a)"
  by (simp add: resolve_def target_of_def split: sum.splits)

lemma target_of_query [simp]:
  "target_of (RawQuery_update f u) = target_of u"
  "target_of (ForceQuery_update g u) = target_of u"
  by (simp_all add: target_of_def Hostname_def Port_def)

lemma parse_star: "map_sum id target_of (parse (''*'' @ CHR ''?'' # q) False)
   = (if stringContainsCTLByte q then Inl InvalidControlCharacter else map_sum id target_of (parse ''*'' False))"
proof -
  have g: "getScheme (''*'' @ CHR ''?'' # q) = Inr ([], ''*'' @ CHR ''?'' # q)"
    by (simp add: getScheme_def is_lower_def is_upper_def is_digit_def)
  have s: "split_query url (''*'' @ CHR ''?'' # q) = ((if q = [] then url\<lparr>ForceQuery := True\<rparr> else url\<lparr>RawQuery := q\<rparr>), ''*'')" for url
    by (rule split_query_present) simp
  have p: "parse_rest (new_URL\<lparr>Scheme := []\<rparr>) ''*'' False = Inr (new_URL\<lparr>Path := ''*''\<rparr>)"
    by code_simp
  have c: "stringContainsCTLByte (''*'' @ CHR ''?'' # q) = stringContainsCTLByte q"
    by (simp add: stringContainsCTLByte_def)
  have c0: "\<not> stringContainsCTLByte ''*''"
    by (simp add: stringContainsCTLByte_def)
  have ne: "''*'' @ CHR ''?'' # q \<noteq> ''*''" by simp
  have l: "parse (''*'' @ CHR ''?'' # q) False =
      (if stringContainsCTLByte q then Inl InvalidControlCharacter
       else parse_rest (if q = [] then new_URL\<lparr>Scheme := [], ForceQuery := True\<rparr>
                        else new_URL\<lparr>Scheme := [], RawQuery := q\<rparr>) ''*'' False)"
    unfolding parse_def c g using ne by (simp add: s strings_ToLower_def del: append.simps)
  have r: "parse ''*'' False = Inr (new_URL\<lparr>Path := ''*''\<rparr>)"
    by (simp add: parse_def c0)
  show ?thesis
    unfolding l r by (simp add: parse_rest_RawQuery parse_rest_ForceQuery p)
qed

lemma parse_query_dropped:
  assumes "CHR ''?'' \<notin> set u" and "\<not> stringContainsCTLByte q"
  shows "map_sum id target_of (parse (u @ CHR ''?'' # q) False) = map_sum id target_of (parse u False)"
proof (cases "u = ''*''")
  case True
  with assms(2) show ?thesis using parse_star [of q] by simp
next
  case False
  have ctl: "stringContainsCTLByte (u @ CHR ''?'' # q) = stringContainsCTLByte u"
    using assms(2) by (simp add: stringContainsCTLByte_append stringContainsCTLByte_Cons)
  have ne: "u @ CHR ''?'' # q \<noteq> ''*''"
    by (cases u) auto
  show ?thesis
  proof (cases "getScheme u")
    case (Inl e)
    then show ?thesis
      by (simp add: parse_def ctl ne False getScheme_query [OF assms(1)])
  next
    case (Inr sr)
    obtain s r where sr: "sr = (s, r)" by (cases sr)
    with Inr have "set r \<subseteq> set u" by (auto dest: getScheme_rest)
    with assms(1) have r: "CHR ''?'' \<notin> set r" by auto
    show ?thesis
      using Inr sr
      by (simp add: parse_def ctl ne False getScheme_query [OF assms(1)]
            split_query_present [OF r] split_query_absent [OF r]
            parse_rest_RawQuery parse_rest_ForceQuery sum.map_comp comp_def)
  qed
qed

lemma url_Parse_no_fragment:
  "CHR ''#'' \<notin> set a \<Longrightarrow> url_Parse a = parse a False"
  by (simp add: url_Parse_def strings_Cut_absent split: sum.splits)

lemma strings_Cut_byte:
  "strings_Cut s [c]
     = (takeWhile (\<lambda>b. b \<noteq> c) s, drop 1 (dropWhile (\<lambda>b. b \<noteq> c) s), c \<in> set s)"
proof (cases "c \<in> set s")
  case False
  then have t: "takeWhile (\<lambda>b. b \<noteq> c) s = s"
    by (simp add: takeWhile_eq_all_conv) blast
  from False have d: "dropWhile (\<lambda>b. b \<noteq> c) s = []"
    by (simp add: dropWhile_eq_Nil_conv) blast
  from False show ?thesis unfolding t d by (simp add: strings_Cut_absent)
next
  case True
  then obtain pre rest where s: "s = pre @ c # rest" and pre: "c \<notin> set pre"
    by (auto dest: split_list_first)
  from pre have t: "takeWhile (\<lambda>b. b \<noteq> c) (pre @ c # rest) = pre"
    by (induction pre) auto
  from pre have d: "dropWhile (\<lambda>b. b \<noteq> c) (pre @ c # rest) = c # rest"
    by (induction pre) auto
  from pre show ?thesis unfolding s t d by (simp add: strings_Cut_first)
qed

lemma takeWhile_dropWhile_Nil: "takeWhile P (dropWhile P xs) = []"
  by (induction xs) auto

lemma target_of_Fragment: "target_of (Fragment_update f u) = target_of u"
  by (simp add: target_of_def Hostname_def Port_def)

lemma resolve_cut:
  "resolve a =
     (case strings_Cut a ''#'' of
        (b, f, found) \<Rightarrow>
          (case map_sum id target_of (parse b False) of
             Inl e \<Rightarrow> Inl e
           | Inr t \<Rightarrow>
               if f = [] then Inr t
               else (case unescape f encodeFragment of Inl e \<Rightarrow> Inl e | Inr frag \<Rightarrow> Inr t)))"
  by (simp add: resolve_target_of url_Parse_def setFragment_def target_of_Fragment
      split: prod.splits sum.splits)

lemma resolve_query_fragment:
  assumes "CHR ''?'' \<notin> set u" and "CHR ''#'' \<notin> set u"
    and "\<not> stringContainsCTLByte (takeWhile (\<lambda>c. c \<noteq> CHR ''#'') x)"
  shows "resolve (u @ CHR ''?'' # x) = resolve (u @ dropWhile (\<lambda>c. c \<noteq> CHR ''#'') x)"
proof -
  let ?q = "takeWhile (\<lambda>c. c \<noteq> CHR ''#'') x"
  let ?d = "dropWhile (\<lambda>c. c \<noteq> CHR ''#'') x"
  from assms(2) have h: "CHR ''#'' \<notin> set (u @ ''?'')" by simp
  have c1: "strings_Cut (u @ CHR ''?'' # x) ''#'' = (u @ CHR ''?'' # ?q, drop 1 ?d, CHR ''#'' \<in> set x)"
    using strings_Cut_skip [OF h, of x] by (simp add: strings_Cut_byte)
  have c2: "strings_Cut (u @ ?d) ''#'' = (u, drop 1 ?d, CHR ''#'' \<in> set ?d)"
    using strings_Cut_skip [OF assms(2), of ?d]
    by (simp add: strings_Cut_byte takeWhile_dropWhile_Nil)
  note pq = parse_query_dropped [OF assms(1,3)]
  show ?thesis
    unfolding resolve_cut [of "u @ CHR ''?'' # x"] resolve_cut [of "u @ ?d"] c1 c2
    by (simp only: pq prod.case)
qed

lemma parse_ok_no_ctl: "parse b v = Inr y \<Longrightarrow> \<not> stringContainsCTLByte b"
  by (simp add: parse_def split: if_splits)

lemma resolve_ok_query_no_ctl:
  assumes "CHR ''#'' \<notin> set u" and "resolve (u @ CHR ''?'' # x) = Inr t"
  shows "\<not> stringContainsCTLByte (takeWhile (\<lambda>c. c \<noteq> CHR ''#'') x)"
proof -
  let ?q = "takeWhile (\<lambda>c. c \<noteq> CHR ''#'') x"
  let ?d = "dropWhile (\<lambda>c. c \<noteq> CHR ''#'') x"
  from assms(1) have h: "CHR ''#'' \<notin> set (u @ ''?'')" by simp
  have c1: "strings_Cut (u @ CHR ''?'' # x) ''#'' = (u @ CHR ''?'' # ?q, drop 1 ?d, CHR ''#'' \<in> set x)"
    using strings_Cut_skip [OF h, of x] by (simp add: strings_Cut_byte)
  from assms(2) obtain y where "parse (u @ CHR ''?'' # ?q) False = Inr y"
    unfolding resolve_cut [of "u @ CHR ''?'' # x"] c1
    by (cases "parse (u @ CHR ''?'' # ?q) False") simp_all
  then have "\<not> stringContainsCTLByte (u @ CHR ''?'' # ?q)"
    by (rule parse_ok_no_ctl)
  then show ?thesis
    by (simp add: stringContainsCTLByte_append stringContainsCTLByte_Cons)
qed

subsection \<open>Authority and path of a plain URL\<close>

lemma strings_LastIndex_absent:
  "c \<notin> set s \<Longrightarrow> strings_LastIndex s [c] = None"
  by (induction s) auto

lemma strings_LastIndex_last:
  "c \<notin> set r \<Longrightarrow> strings_LastIndex (l @ c # r) [c] = Some (length l)"
  by (induction l) (auto simp: strings_LastIndex_absent)

lemma host_byte_facts:
  assumes "host_byte c"
  shows "c \<noteq> CHR ''%''" "c \<noteq> CHR ''/''" "c \<noteq> CHR ''@''" "c \<noteq> CHR ''[''" "c \<noteq> CHR '':''"
    "c \<noteq> CHR ''?''" "c \<noteq> CHR ''#''" "\<not> (c < CHR '' '' \<or> c = CHR 0x7F)"
    "\<not> shouldEscape c encodeHost"
proof -
  from assms have n: "(48 \<le> (of_char c :: nat) \<and> (of_char c :: nat) \<le> 57)
      \<or> (65 \<le> (of_char c :: nat) \<and> (of_char c :: nat) \<le> 90)
      \<or> (97 \<le> (of_char c :: nat) \<and> (of_char c :: nat) \<le> 122)
      \<or> (of_char c :: nat) \<in> {45, 46, 95, 126}"
    by (auto simp: host_byte_def byte_nat)
  have ne: "c \<noteq> d" if "(of_char c :: nat) \<noteq> of_char d" for d
    using that by auto
  show "c \<noteq> CHR ''%''" using n by (intro ne) auto
  show "c \<noteq> CHR ''/''" using n by (intro ne) auto
  show "c \<noteq> CHR ''@''" using n by (intro ne) auto
  show "c \<noteq> CHR ''[''" using n by (intro ne) auto
  show "c \<noteq> CHR '':''" using n by (intro ne) auto
  show "c \<noteq> CHR ''?''" using n by (intro ne) auto
  show "c \<noteq> CHR ''#''" using n by (intro ne) auto
  show "\<not> (c < CHR '' '' \<or> c = CHR 0x7F)" unfolding ctl_nat using n by auto
  from assms show "\<not> shouldEscape c encodeHost"
    by (simp add: shouldEscape_def host_byte_def) blast
qed

lemma is_digit_host_byte: "is_digit c \<Longrightarrow> host_byte c"
  by (simp add: host_byte_def)

lemma colon_not_escaped: "\<not> shouldEscape CHR '':'' encodeHost"
  by (simp add: shouldEscape_def is_lower_def is_upper_def is_digit_def)

lemma strings_Count_absent: "c \<notin> set s \<Longrightarrow> strings_Count s c = 0"
  by (induction s) (auto simp: strings_Count_def)

lemma unescape_check_host:
  "list_all (\<lambda>c. host_byte c \<or> c = CHR '':'') s \<Longrightarrow> unescape_check encodeHost s = None"
proof (induction s)
  case Nil
  show ?case by simp
next
  case (Cons c s)
  then have "host_byte c \<or> c = CHR '':''" by simp
  then have "c \<noteq> CHR ''%''" and "\<not> shouldEscape c encodeHost"
    using host_byte_facts(1,9) [of c] colon_not_escaped by auto
  with Cons show ?case by simp
qed

lemma unescape_host:
  assumes "list_all (\<lambda>c. host_byte c \<or> c = CHR '':'') s"
  shows "unescape s encodeHost = Inr s"
proof -
  from assms have "CHR ''%'' \<notin> set s" using host_byte_facts(1) by (auto simp: list_all_iff)
  then have "strings_Count s CHR ''%'' = 0" by (rule strings_Count_absent)
  then show ?thesis by (simp add: unescape_def unescape_check_host [OF assms])
qed

lemma unescape_check_path:
  "CHR ''%'' \<notin> set s \<Longrightarrow> unescape_check encodePath s = None"
  by (induction s) auto

lemma unescape_path:
  assumes "CHR ''%'' \<notin> set s"
  shows "unescape s encodePath = Inr s"
proof -
  from assms have "strings_Count s CHR ''%'' = 0" by (rule strings_Count_absent)
  then show ?thesis by (simp add: unescape_def unescape_check_path [OF assms])
qed

lemma path_byte_facts:
  assumes "path_byte c"
  shows "c \<noteq> CHR ''%''" "c \<noteq> CHR ''?''" "c \<noteq> CHR ''#''" "\<not> (c < CHR '' '' \<or> c = CHR 0x7F)"
  using assms by (simp_all add: path_byte_def)

lemma is_abs_path_cases:
  "is_abs_path t \<Longrightarrow> t = [] \<or> (\<exists>t'. t = CHR ''/'' # t' \<and> list_all path_byte t')"
  by (cases t) (simp_all add: is_abs_path_def)

lemma list_all_path_byte_facts:
  assumes "list_all path_byte t"
  shows "CHR ''%'' \<notin> set t" "CHR ''?'' \<notin> set t" "CHR ''#'' \<notin> set t" "\<not> stringContainsCTLByte t"
proof -
  from assms have a: "\<And>c. c \<in> set t \<Longrightarrow> path_byte c" by (simp add: list_all_iff)
  show "CHR ''%'' \<notin> set t" using a path_byte_facts(1) by blast
  show "CHR ''?'' \<notin> set t" using a path_byte_facts(2) by blast
  show "CHR ''#'' \<notin> set t" using a path_byte_facts(3) by blast
  show "\<not> stringContainsCTLByte t"
    unfolding stringContainsCTLByte_def list_ex_iff using a path_byte_facts(4) by blast
qed

lemma is_abs_path_facts:
  assumes "is_abs_path t"
  shows "CHR ''%'' \<notin> set t" "CHR ''?'' \<notin> set t" "CHR ''#'' \<notin> set t" "\<not> stringContainsCTLByte t"
  using is_abs_path_cases [OF assms] list_all_path_byte_facts
  by (auto simp: stringContainsCTLByte_Cons)

lemma is_reg_name_facts:
  assumes "is_reg_name h"
  shows "CHR ''%'' \<notin> set h" "CHR ''/'' \<notin> set h" "CHR ''@'' \<notin> set h" "CHR '':'' \<notin> set h"
    "CHR ''?'' \<notin> set h" "CHR ''#'' \<notin> set h" "\<not> stringContainsCTLByte h"
    "\<not> prefix ''['' h"
proof -
  from assms have a: "\<And>c. c \<in> set h \<Longrightarrow> host_byte c" by (simp add: is_reg_name_def list_all_iff)
  show "CHR ''%'' \<notin> set h" using a host_byte_facts(1) by blast
  show "CHR ''/'' \<notin> set h" using a host_byte_facts(2) by blast
  show "CHR ''@'' \<notin> set h" using a host_byte_facts(3) by blast
  show b: "CHR '':'' \<notin> set h" using a host_byte_facts(5) by blast
  show "CHR ''?'' \<notin> set h" using a host_byte_facts(6) by blast
  show "CHR ''#'' \<notin> set h" using a host_byte_facts(7) by blast
  show "\<not> stringContainsCTLByte h"
    unfolding stringContainsCTLByte_def list_ex_iff using a host_byte_facts(8) by blast
  have "CHR ''['' \<notin> set h" using a host_byte_facts(4) by blast
  then show "\<not> prefix ''['' h" by (cases h) auto
qed

lemma is_port_facts:
  assumes "is_port p"
  shows "is_reg_name p" "validOptionalPort (CHR '':'' # p)" "p \<noteq> []"
  using assms
  by (simp_all add: is_port_def is_reg_name_def list_all_iff is_digit_host_byte validOptionalPort_def)

text \<open>An authority without userinfo: a registered name, then maybe a colon and a port.\<close>

lemma parseHost_plain:
  assumes "is_reg_name h" and "p = [] \<or> (\<exists>d. p = CHR '':'' # d \<and> is_port d)"
  shows "parseHost (h @ p) = Inr (h @ p)"
proof -
  from assms(2) show ?thesis
  proof
    assume "p = []"
    with assms(1) show ?thesis
      by (simp add: parseHost_def strings_HasPrefix_def is_reg_name_facts strings_LastIndex_absent
          unescape_host is_reg_name_def list_all_iff)
  next
    assume "\<exists>d. p = CHR '':'' # d \<and> is_port d"
    then obtain d where p: "p = CHR '':'' # d" and d: "is_port d" by blast
    from d have dn: "CHR '':'' \<notin> set d" by (simp add: is_port_facts is_reg_name_facts)
    from is_reg_name_facts(8) [OF assms(1)] have "\<not> prefix ''['' (h @ p)"
      by (cases h) (auto simp: p)
    moreover have "list_all (\<lambda>c. host_byte c \<or> c = CHR '':'') (h @ p)"
      using assms(1) is_port_facts(1) [OF d] by (auto simp: p is_reg_name_def list_all_iff)
    ultimately show ?thesis
      using is_port_facts(2) [OF d]
      by (simp add: parseHost_def strings_HasPrefix_def p strings_LastIndex_last [OF dn] unescape_host)
  qed
qed

lemma splitHostPort_plain:
  assumes "is_reg_name h"
  shows "splitHostPort h = (h, [])"
    and "is_port d \<Longrightarrow> splitHostPort (h @ CHR '':'' # d) = (h, d)"
proof -
  note f = is_reg_name_facts [OF assms]
  from f(8) have nb: "strings_HasPrefix h ''['' = False"
    by (simp add: strings_HasPrefix_def)
  show "splitHostPort h = (h, [])"
    by (simp add: splitHostPort_def strings_LastIndex_absent [OF f(4)] nb)
  assume d: "is_port d"
  from d have dn: "CHR '':'' \<notin> set d" by (simp add: is_port_facts is_reg_name_facts)
  show "splitHostPort (h @ CHR '':'' # d) = (h, d)"
    using is_port_facts(2) [OF d]
    by (simp add: splitHostPort_def strings_LastIndex_last [OF dn] nb)
qed

lemma parseAuthority_plain:
  assumes "is_reg_name h" and "p = [] \<or> (\<exists>d. p = CHR '':'' # d \<and> is_port d)"
  shows "parseAuthority (h @ p) = Inr (None, h @ p)"
proof -
  from assms have "CHR ''@'' \<notin> set (h @ p)"
    by (auto simp: is_reg_name_facts is_port_facts)
  then show ?thesis
    by (simp add: parseAuthority_def strings_LastIndex_absent parseHost_plain [OF assms]
        del: set_append)
qed

lemma strings_Index_first:
  "c \<notin> set pre \<Longrightarrow> strings_Index (pre @ c # s) [c] = Some (length pre)"
  by (induction pre) auto

lemma strings_Index_absent:
  "c \<notin> set s \<Longrightarrow> strings_Index s [c] = None"
  by (induction s) auto

lemma strings_Index_authority:
  assumes "CHR ''/'' \<notin> set a" and "t = [] \<or> (\<exists>t'. t = CHR ''/'' # t')"
  shows "(case strings_Index (a @ t) ''/'' of
            Some i \<Rightarrow> (take i (a @ t), drop i (a @ t))
          | None \<Rightarrow> (a @ t, [])) = (a, t)"
  using assms(2)
proof
  assume "t = []"
  with assms(1) show ?thesis by (simp add: strings_Index_absent)
next
  assume "\<exists>t'. t = CHR ''/'' # t'"
  then obtain t' where t: "t = CHR ''/'' # t'" by blast
  show ?thesis unfolding t strings_Index_first [OF assms(1)] by simp
qed

lemma url_Parse_plain:
  assumes "is_scheme s" and "is_reg_name h" and "p = [] \<or> (\<exists>d. p = CHR '':'' # d \<and> is_port d)"
    and "is_abs_path t"
  shows "url_Parse (s @ ''://'' @ h @ p @ t)
     = Inr (new_URL\<lparr>Scheme := strings_ToLower s, Host := h @ p, Path := t\<rparr>)"
proof -
  let ?a = "h @ p"
  let ?rest = "''//'' @ ?a @ t"
  note hf = is_reg_name_facts [OF assms(2)]
  note tf = is_abs_path_facts [OF assms(4)]
  have pf: "CHR ''/'' \<notin> set p \<and> CHR ''?'' \<notin> set p \<and> CHR ''#'' \<notin> set p \<and> \<not> stringContainsCTLByte p"
  proof (cases "p = []")
    case True
    then show ?thesis by (simp add: stringContainsCTLByte_def)
  next
    case False
    with assms(3) obtain d where p: "p = CHR '':'' # d" and d: "is_port d" by blast
    note df = is_reg_name_facts [OF is_port_facts(1) [OF d]]
    show ?thesis using df by (simp add: p stringContainsCTLByte_Cons)
  qed
  have nohash: "CHR ''#'' \<notin> set (s @ ''://'' @ h @ p @ t)"
    using is_scheme_no_hash [OF assms(1)] hf tf pf by simp
  have noq: "CHR ''?'' \<notin> set ?rest"
    using hf tf pf by simp
  have noctl: "\<not> stringContainsCTLByte ?rest"
    using hf tf pf by (simp add: stringContainsCTLByte_append stringContainsCTLByte_Cons)
  have sne: "strings_ToLower s \<noteq> []"
    using assms(1) by (simp add: strings_ToLower_def is_scheme_bytes)
  have slash: "CHR ''/'' \<notin> set ?a" using hf pf by simp
  have auth: "(case strings_Index (?a @ t) ''/'' of
            Some i \<Rightarrow> (take i (?a @ t), drop i (?a @ t))
          | None \<Rightarrow> (?a @ t, [])) = (?a, t)"
    using is_abs_path_cases [OF assms(4)] by (intro strings_Index_authority [OF slash]) auto
  have hp: "strings_HasPrefix ?rest ''/''" "strings_HasPrefix ?rest ''//''"
    by (simp_all add: strings_HasPrefix_def)
  have d2: "drop 2 ?rest = ?a @ t" by simp
  have pr: "parse_rest (new_URL\<lparr>Scheme := strings_ToLower s, RawQuery := []\<rparr>) ?rest False
      = Inr (new_URL\<lparr>Scheme := strings_ToLower s, Host := ?a, Path := t\<rparr>)"
    unfolding parse_rest_def Let_def d2 auth
    using sne hp
    by (simp add: parseAuthority_plain [OF assms(2,3)] setPath_def unescape_path [OF tf(1)]
          new_URL_def del: append.simps append_assoc)
  have "parse (s @ CHR '':'' # ?rest) False
      = Inr (new_URL\<lparr>Scheme := strings_ToLower s, Host := ?a, Path := t\<rparr>)"
    unfolding parse_scheme [OF assms(1)] split_query_absent [OF noq]
    using noctl pr by simp
  then show ?thesis
    using url_Parse_no_fragment [OF nohash] by simp
qed

lemma is_port_no_colon: "is_port d \<Longrightarrow> CHR '':'' \<notin> set d"
  by (simp add: is_port_facts is_reg_name_facts)

lemma Port_explicit:
  assumes "is_port d"
  shows "snd (splitHostPort (h' @ CHR '':'' # d)) = d"
  using is_port_facts(2) [OF assms]
  by (simp add: splitHostPort_def strings_LastIndex_last [OF is_port_no_colon [OF assms]]
      split: prod.splits)

lemma strings_LastIndex_Some:
  "strings_LastIndex s [c] = Some i \<Longrightarrow> i < length s \<and> s ! i = c"
proof (induction s arbitrary: i)
  case Nil
  then show ?case by simp
next
  case (Cons a s)
  show ?case
  proof (cases "strings_LastIndex s [c]")
    case None
    with Cons.prems show ?thesis by (auto split: if_splits)
  next
    case (Some j)
    with Cons.prems have i: "i = Suc j" by simp
    from Cons.IH [OF Some] show ?thesis by (simp add: i)
  qed
qed

lemma Port_absent:
  assumes "\<And>h' d. hp = h' @ CHR '':'' # d \<Longrightarrow> \<not> is_port d"
  shows "snd (splitHostPort hp) = []"
proof (cases "strings_LastIndex hp '':''")
  case None
  then show ?thesis by (simp add: splitHostPort_def split: prod.splits)
next
  case (Some i)
  define l where "l = take i hp"
  define r where "r = drop (Suc i) hp"
  from strings_LastIndex_Some [OF Some] have i: "i < length hp" and c: "hp ! i = CHR '':''"
    by simp_all
  have "hp = take i hp @ hp ! i # drop (Suc i) hp"
    using i by (rule id_take_nth_drop)
  then have hp: "hp = l @ CHR '':'' # r"
    unfolding l_def r_def by (simp only: c)
  from i have len: "length l = i" by (simp add: l_def)
  from hp len have di: "drop i hp = CHR '':'' # r" by simp
  show ?thesis
  proof (cases "validOptionalPort (CHR '':'' # r)")
    case False
    with Some di show ?thesis by (simp add: splitHostPort_def split: prod.splits)
  next
    case True
    then have dg: "list_all is_digit r"
      by (simp add: validOptionalPort_def)
    from assms [OF hp] have "\<not> is_port r" .
    with dg have "r = []" by (simp add: is_port_def)
    then have "drop (Suc i) hp = []" by (simp add: r_def)
    with Some show ?thesis by (simp add: splitHostPort_def split: prod.splits)
  qed
qed

subsection \<open>\<^verbatim>\<open>Run\<close> by cases\<close>

lemma take_min_length: "take (min n (length bs)) bs = take n bs"
  by (simp add: min_def)

lemma exchange_result:
  "exchange w c t =
     (let req = request (path t) (host t);
          p = answers w (remote c) (sent c @ req)
      in if broken p then (Panic (ReadError ReadFault), [Write req, Read 1024])
         else if pending p = [] then (Panic (ReadError EOF), [Write req, Read 1024])
         else (Returned, [Write req, Read 1024, Stdout (take 1024 (pending p) @ LF)]))"
  by (simp add: exchange_def conn_Read_def conn_Write_def Let_def take_min_length)

lemma Run_connected:
  assumes "resolve a = Inr t" "connects w ''tcp'' (host t @ '':'' @ port t)"
  shows "Run w (a # args) =
     (fst (exchange w \<lparr>remote = host t @ '':'' @ port t, sent = []\<rparr> t),
      [println2 ''Host:'' (host t), println2 ''Port:'' (port t), println2 ''Path:'' (path t),
       Dial ''tcp'' (host t @ '':'' @ port t)]
      @ snd (exchange w \<lparr>remote = host t @ '':'' @ port t, sent = []\<rparr> t) @ [Close])"
  using assms by (simp add: Run_def Let_def split: prod.splits)

lemma Run_refused:
  assumes "resolve a = Inr t" "\<not> connects w ''tcp'' (host t @ '':'' @ port t)"
  shows "Run w (a # args) =
     (Panic DialError,
      [println2 ''Host:'' (host t), println2 ''Port:'' (port t), println2 ''Path:'' (path t),
       Dial ''tcp'' (host t @ '':'' @ port t)])"
  using assms by (simp add: Run_def Let_def)

lemma Run_unparsed:
  assumes "resolve a = Inl e"
  shows "Run w (a # args) = (Panic (ParseError e), [])"
  using assms by (simp add: Run_def)

text \<open>
  The README runs the program on \<^verbatim>\<open>https://example.com/get\<close> and shows the three lines
  \<^verbatim>\<open>Host: example.com\<close>, \<^verbatim>\<open>Port: 80\<close> and \<^verbatim>\<open>Path: /get\<close>; the run of the model starts with
  them.
\<close>

lemma readme_example:
  "take 3 (snd (Run no_server [''https://example.com/get'']))
     = [Stderr (''Host: example.com'' @ [CHR 0x0A]), Stderr (''Port: 80'' @ [CHR 0x0A]),
        Stderr (''Path: /get'' @ [CHR 0x0A])]"
  by code_simp

subsection \<open>The request on the wire\<close>

text \<open>
  Claim C1. Whatever host, port and path the argument resolves to, once the connection is
  open the program writes to it exactly once, and the bytes are
  \<^verbatim>\<open>"GET " ++ path ++ " HTTP/1.0\r\nHost: " ++ host ++ "\r\n\r\n"\<close>. The network events of
  the run are the dial, that one write, one read and the close, in this order: nothing is
  written before or after the request. These bytes are what the connection carries: the
  peer at the dialed address answers exactly them, and the outcome of the run and its
  standard output are those of that answer.
\<close>

theorem request_bytes_exact:
  assumes "resolve a = Inr t" and "connects w ''tcp'' (host t @ '':'' @ port t)"
    and "req = ''GET '' @ path t @ '' HTTP/1.0'' @ [CHR 0x0D, CHR 0x0A]
               @ ''Host: '' @ host t @ [CHR 0x0D, CHR 0x0A, CHR 0x0D, CHR 0x0A]"
    and "p = answers w (host t @ '':'' @ port t) req"
  shows "written (snd (Run w (a # args))) = [req]
         \<and> network (snd (Run w (a # args))) =
           [Dial ''tcp'' (host t @ '':'' @ port t), Write req, Read 1024, Close]
         \<and> fst (Run w (a # args)) =
           (if broken p then Panic (ReadError ReadFault)
            else if pending p = [] then Panic (ReadError EOF)
            else Returned)
         \<and> stdout (snd (Run w (a # args))) =
           (if broken p then [] else if pending p = [] then []
            else take 1024 (pending p) @ [CHR 0x0A])"
proof -
  have r: "request (path t) (host t) = req"
    by (simp add: request_def CRLF_def assms(3))
  show ?thesis
    unfolding Run_connected [OF assms(1,2)] exchange_result Let_def r
    by (simp add: assms(4) println2_def LF_def)
qed

theorem request_bytes_exact_witness:
  "resolve ''http://example.com/get'' = Inr \<lparr>host = ''example.com'', port = ''80'', path = ''/get''\<rparr>
   \<and> connects echo_server ''tcp'' ''example.com:80''
   \<and> answers echo_server ''example.com:80''
        (''GET /get HTTP/1.0'' @ [CHR 0x0D, CHR 0x0A] @ ''Host: example.com''
         @ [CHR 0x0D, CHR 0x0A, CHR 0x0D, CHR 0x0A])
       = \<lparr>pending = ''GET /get HTTP/1.0'' @ [CHR 0x0D, CHR 0x0A] @ ''Host: example.com''
            @ [CHR 0x0D, CHR 0x0A, CHR 0x0D, CHR 0x0A], broken = False\<rparr>
   \<and> written (snd (Run echo_server [''http://example.com/get''])) =
       [''GET /get HTTP/1.0'' @ [CHR 0x0D, CHR 0x0A] @ ''Host: example.com''
        @ [CHR 0x0D, CHR 0x0A, CHR 0x0D, CHR 0x0A]]
   \<and> fst (Run echo_server [''http://example.com/get'']) = Returned
   \<and> stdout (snd (Run echo_server [''http://example.com/get''])) =
       ''GET /get HTTP/1.0'' @ [CHR 0x0D, CHR 0x0A] @ ''Host: example.com''
        @ [CHR 0x0D, CHR 0x0A, CHR 0x0D, CHR 0x0A] @ [CHR 0x0A]"
proof -
  let ?t = "\<lparr>host = ''example.com'', port = ''80'', path = ''/get''\<rparr>"
  let ?req = "''GET /get HTTP/1.0'' @ [CHR 0x0D, CHR 0x0A] @ ''Host: example.com''
        @ [CHR 0x0D, CHR 0x0A, CHR 0x0D, CHR 0x0A]"
  let ?p = "\<lparr>pending = ?req, broken = False\<rparr>"
  have r: "resolve ''http://example.com/get'' = Inr ?t"
    by code_simp
  have c: "connects echo_server ''tcp'' (host ?t @ '':'' @ port ?t)"
    by (simp add: echo_server_def)
  have q: "?req = ''GET '' @ path ?t @ '' HTTP/1.0'' @ [CHR 0x0D, CHR 0x0A]
               @ ''Host: '' @ host ?t @ [CHR 0x0D, CHR 0x0A, CHR 0x0D, CHR 0x0A]"
    by simp
  have p: "?p = answers echo_server (host ?t @ '':'' @ port ?t) ?req"
    by (simp add: echo_server_def)
  from request_bytes_exact [OF r c q p, of "[]"] r c p show ?thesis by simp
qed

subsection \<open>Malformed input\<close>

text \<open>
  The input \<^verbatim>\<open>not a url\<close> has no scheme, and \<^verbatim>\<open>url.Parse\<close> accepts it: \<^verbatim>\<open>getScheme\<close>
  stops at the space and returns an empty scheme without an error, and the whole text
  becomes the path of a relative reference. The host is empty, the port is defaulted, and
  the program dials \<^verbatim>\<open>:80\<close>. So claim C3 fails at its own example.
\<close>

theorem schemeless_input_counterexample:
  "resolve ''not a url'' = Inr \<lparr>host = [], port = ''80'', path = ''not a url''\<rparr>
   \<and> Run no_server [''not a url'']
       = (Panic DialError,
          [Stderr (''Host: '' @ [CHR 0x0A]), Stderr (''Port: 80'' @ [CHR 0x0A]),
           Stderr (''Path: not a url'' @ [CHR 0x0A]), Dial ''tcp'' '':80''])"
  by code_simp

text \<open>
  Claim C3, amended. Whenever \<^verbatim>\<open>url.Parse\<close> does return an error for the argument, \<^verbatim>\<open>Run\<close>
  panics with that error and the trace is empty: nothing was dialed, written, read or
  printed.
\<close>

theorem parse_failure_before_network:
  assumes "resolve a = Inl e"
  shows "Run w (a # args) = (Panic (ParseError e), [])
         \<and> dialed (snd (Run w (a # args))) = []
         \<and> network (snd (Run w (a # args))) = []"
  by (simp add: Run_unparsed [OF assms])

theorem parse_failure_before_network_witness:
  "resolve ''://example.com'' = Inl MissingProtocolScheme
   \<and> Run (stub_server ''hi'') [''://example.com''] = (Panic (ParseError MissingProtocolScheme), [])
   \<and> dialed (snd (Run (stub_server ''hi'') [''://example.com''])) = []"
proof -
  have r: "resolve ''://example.com'' = Inl MissingProtocolScheme"
    by code_simp
  from parse_failure_before_network [OF r, of "stub_server ''hi''" "[]"] r show ?thesis by simp
qed

subsection \<open>The single read\<close>

text \<open>
  A peer that accepts the connection and closes it at once, sending nothing: \<^verbatim>\<open>conn.Read\<close>
  returns \<^verbatim>\<open>0, io.EOF\<close>, the test \<^verbatim>\<open>err != nil\<close> of line 57 holds, and \<^verbatim>\<open>Run\<close> panics. The
  clean end of the stream is an error for this program, so claim C4 fails there.
\<close>

theorem immediate_close_counterexample:
  "Run (stub_server []) [''http://example.com/get'']
     = (Panic (ReadError EOF),
        [Stderr (''Host: example.com'' @ [CHR 0x0A]), Stderr (''Port: 80'' @ [CHR 0x0A]),
         Stderr (''Path: /get'' @ [CHR 0x0A]), Dial ''tcp'' ''example.com:80'',
         Write (''GET /get HTTP/1.0'' @ [CHR 0x0D, CHR 0x0A] @ ''Host: example.com''
                @ [CHR 0x0D, CHR 0x0A, CHR 0x0D, CHR 0x0A]),
         Read 1024, Close])"
  by code_simp

text \<open>
  Claim C4, amended. A read of at least one byte and fewer than 1024 is not an error: the
  program returns and prints those bytes. A read that returns an error makes \<^verbatim>\<open>Run\<close>
  panic with it, and the clean end of the stream (\<^verbatim>\<open>io.EOF\<close>, from a peer that closes
  before sending a byte) is such an error, like a broken connection.
\<close>

theorem read_outcomes:
  assumes "resolve a = Inr t" and "connects w ''tcp'' (host t @ '':'' @ port t)"
    and "answers w (host t @ '':'' @ port t) (request (path t) (host t)) = p"
  shows "(\<not> broken p \<and> pending p \<noteq> [] \<and> length (pending p) < 1024 \<longrightarrow>
            fst (Run w (a # args)) = Returned
            \<and> stdout (snd (Run w (a # args))) = pending p @ [CHR 0x0A])
         \<and> (\<not> broken p \<and> pending p = [] \<longrightarrow>
            fst (Run w (a # args)) = Panic (ReadError EOF)
            \<and> stdout (snd (Run w (a # args))) = [])
         \<and> (broken p \<longrightarrow>
            fst (Run w (a # args)) = Panic (ReadError ReadFault)
            \<and> stdout (snd (Run w (a # args))) = [])"
  using assms(3)
  by (simp add: Run_connected [OF assms(1,2)] exchange_result Let_def println2_def LF_def)

theorem read_outcomes_witness:
  "resolve ''http://example.com/get''
     = Inr \<lparr>host = ''example.com'', port = ''80'', path = ''/get''\<rparr>
   \<and> connects (stub_server ''hi'') ''tcp'' ''example.com:80''
   \<and> answers (stub_server ''hi'') ''example.com:80'' (request ''/get'' ''example.com'')
       = \<lparr>pending = ''hi'', broken = False\<rparr>
   \<and> fst (Run (stub_server ''hi'') [''http://example.com/get'']) = Returned
   \<and> stdout (snd (Run (stub_server ''hi'') [''http://example.com/get''])) = ''hi'' @ [CHR 0x0A]
   \<and> connects (stub_server []) ''tcp'' ''example.com:80''
   \<and> answers (stub_server []) ''example.com:80'' (request ''/get'' ''example.com'')
       = \<lparr>pending = [], broken = False\<rparr>
   \<and> fst (Run (stub_server []) [''http://example.com/get'']) = Panic (ReadError EOF)
   \<and> connects broken_server ''tcp'' ''example.com:80''
   \<and> answers broken_server ''example.com:80'' (request ''/get'' ''example.com'')
       = \<lparr>pending = [], broken = True\<rparr>
   \<and> fst (Run broken_server [''http://example.com/get'']) = Panic (ReadError ReadFault)"
proof -
  let ?t = "\<lparr>host = ''example.com'', port = ''80'', path = ''/get''\<rparr>"
  have r: "resolve ''http://example.com/get'' = Inr ?t"
    by code_simp
  have c1: "connects (stub_server ''hi'') ''tcp'' (host ?t @ '':'' @ port ?t)"
    and c2: "connects (stub_server []) ''tcp'' (host ?t @ '':'' @ port ?t)"
    and c3: "connects broken_server ''tcp'' (host ?t @ '':'' @ port ?t)"
    by (simp_all add: stub_server_def broken_server_def)
  have p1: "answers (stub_server ''hi'') (host ?t @ '':'' @ port ?t) (request (path ?t) (host ?t))
              = \<lparr>pending = ''hi'', broken = False\<rparr>"
    and p2: "answers (stub_server []) (host ?t @ '':'' @ port ?t) (request (path ?t) (host ?t))
              = \<lparr>pending = [], broken = False\<rparr>"
    and p3: "answers broken_server (host ?t @ '':'' @ port ?t) (request (path ?t) (host ?t))
              = \<lparr>pending = [], broken = True\<rparr>"
    by (simp_all add: stub_server_def broken_server_def)
  from read_outcomes [OF r c1 p1, of "[]"] read_outcomes [OF r c2 p2, of "[]"]
    read_outcomes [OF r c3 p3, of "[]"] r c1 c2 c3 p1 p2 p3
  show ?thesis by simp
qed

text \<open>
  A server that sends 1030 bytes in two writes of 515, the first of which has arrived
  when the \<^verbatim>\<open>Read\<close> returns: the server has sent more than 1024 bytes, and the program
  returns and prints 515 of them. What counts is not what the server sends but what has
  arrived when the one \<^verbatim>\<open>Read\<close> returns, so claim C6 fails as it is worded.
\<close>

theorem partial_delivery_counterexample:
  "length (sends (two_writes (replicate 515 CHR ''x'') (replicate 515 CHR ''x''))
             ''example.com:80'' (request ''/get'' ''example.com'')) = 1030
   \<and> fst (Run (two_writes (replicate 515 CHR ''x'') (replicate 515 CHR ''x''))
             [''http://example.com/get'']) = Returned
   \<and> stdout (snd (Run (two_writes (replicate 515 CHR ''x'') (replicate 515 CHR ''x''))
             [''http://example.com/get''])) = replicate 515 CHR ''x'' @ [CHR 0x0A]
   \<and> length (replicate 515 CHR ''x'') \<noteq> 1024"
proof -
  let ?t = "\<lparr>host = ''example.com'', port = ''80'', path = ''/get''\<rparr>"
  let ?w = "two_writes (replicate 515 CHR ''x'') (replicate 515 CHR ''x'')"
  have r: "resolve ''http://example.com/get'' = Inr ?t"
    by code_simp
  have c: "connects ?w ''tcp'' (host ?t @ '':'' @ port ?t)"
    by (simp add: two_writes_def)
  have l: "length (sends ?w ''example.com:80'' (request ''/get'' ''example.com'')) = 1030"
    by (simp add: sends_def two_writes_def)
  have o: "fst (Run ?w [''http://example.com/get'']) = Returned"
    unfolding Run_connected [OF r c] exchange_result Let_def
    by (simp add: two_writes_def)
  have x: "stdout (snd (Run ?w [''http://example.com/get''])) = replicate 515 CHR ''x'' @ [CHR 0x0A]"
    unfolding Run_connected [OF r c] exchange_result Let_def
    by (simp add: two_writes_def println2_def LF_def)
  from l o x show ?thesis by simp
qed

text \<open>
  Claim C6, amended. When more than 1024 bytes have arrived by the time the \<^verbatim>\<open>Read\<close>
  returns, \<^verbatim>\<open>Run\<close> returns without a panic and prints the first 1024 of them, exactly 1024
  bytes, and the rest is dropped. Bytes that arrive later are dropped too: the run is the
  same whatever they are. In every run of every world, standard output is empty or is a
  response of at most 1024 bytes followed by the newline.
\<close>

theorem truncation_at_capacity:
  assumes "resolve a = Inr t" and "connects w ''tcp'' (host t @ '':'' @ port t)"
    and "answers w (host t @ '':'' @ port t) (request (path t) (host t)) = p"
    and "\<not> broken p" and "1024 < length (pending p)"
  shows "fst (Run w (a # args)) = Returned
         \<and> stdout (snd (Run w (a # args))) = take 1024 (pending p) @ [CHR 0x0A]
         \<and> length (take 1024 (pending p)) = 1024
         \<and> (\<forall>f. Run (w\<lparr>later := f\<rparr>) (a # args) = Run w (a # args))
         \<and> (\<forall>w' args'. \<exists>r. length r \<le> 1024
                \<and> (stdout (snd (Run w' args')) = r @ [CHR 0x0A] \<or> stdout (snd (Run w' args')) = []))"
proof -
  have l: "Run (w\<lparr>later := f\<rparr>) (a # args) = Run w (a # args)" for f
    by (simp add: Run_def exchange_def conn_Read_def Let_def split: sum.splits)
  from assms(3,4,5) have "pending p \<noteq> []" by auto
  with assms(3,4,5) have a: "fst (Run w (a # args)) = Returned
         \<and> stdout (snd (Run w (a # args))) = take 1024 (pending p) @ [CHR 0x0A]
         \<and> length (take 1024 (pending p)) = 1024"
    by (simp add: Run_connected [OF assms(1,2)] exchange_result Let_def println2_def LF_def)
  have b: "\<exists>r. length r \<le> 1024
                \<and> (stdout (snd (Run w' args')) = r @ [CHR 0x0A] \<or> stdout (snd (Run w' args')) = [])" for w' args'
  proof (cases args')
    case Nil
    then show ?thesis by (auto simp: Run_def intro: exI [of _ "[]"])
  next
    case (Cons a' rest)
    show ?thesis
    proof (cases "resolve a'")
      case (Inl e)
      then show ?thesis using Cons by (auto simp: Run_unparsed intro: exI [of _ "[]"])
    next
      case (Inr t')
      show ?thesis
      proof (cases "connects w' ''tcp'' (host t' @ '':'' @ port t')")
        case False
        then show ?thesis using Cons Inr
          by (auto simp: Run_refused println2_def intro: exI [of _ "[]"])
      next
        case True
        let ?p = "answers w' (host t' @ '':'' @ port t') (request (path t') (host t'))"
        have "length (take 1024 (pending ?p)) \<le> 1024" by simp
        moreover have "stdout (snd (Run w' args')) = take 1024 (pending ?p) @ [CHR 0x0A]
              \<or> stdout (snd (Run w' args')) = []"
          using Cons by (simp add: Run_connected [OF Inr True] exchange_result Let_def println2_def LF_def)
        ultimately show ?thesis by blast
      qed
    qed
  qed
  from a l b show ?thesis by blast
qed


theorem truncation_at_capacity_witness:
  "resolve ''http://example.com/get''
     = Inr \<lparr>host = ''example.com'', port = ''80'', path = ''/get''\<rparr>
   \<and> connects (stub_server (replicate 1030 CHR ''x'')) ''tcp'' ''example.com:80''
   \<and> \<not> broken (answers (stub_server (replicate 1030 CHR ''x'')) ''example.com:80''
                  (request ''/get'' ''example.com''))
   \<and> 1024 < length (pending (answers (stub_server (replicate 1030 CHR ''x'')) ''example.com:80''
                  (request ''/get'' ''example.com'')))
   \<and> fst (Run (stub_server (replicate 1030 CHR ''x'')) [''http://example.com/get'']) = Returned
   \<and> stdout (snd (Run (stub_server (replicate 1030 CHR ''x'')) [''http://example.com/get'']))
       = replicate 1024 CHR ''x'' @ [CHR 0x0A]"
proof -
  let ?t = "\<lparr>host = ''example.com'', port = ''80'', path = ''/get''\<rparr>"
  let ?w = "stub_server (replicate 1030 CHR ''x'')"
  let ?p = "\<lparr>pending = replicate 1030 CHR ''x'', broken = False\<rparr>"
  have r: "resolve ''http://example.com/get'' = Inr ?t"
    by code_simp
  have c: "connects ?w ''tcp'' (host ?t @ '':'' @ port ?t)"
    by (simp add: stub_server_def)
  have p: "answers ?w (host ?t @ '':'' @ port ?t) (request (path ?t) (host ?t)) = ?p"
    by (simp add: stub_server_def)
  have b: "\<not> broken ?p" by simp
  have l: "1024 < length (pending ?p)" by simp
  from truncation_at_capacity [OF r c p b l, of "[]"] r c p show ?thesis by simp
qed

subsection \<open>The deferred close\<close>

text \<open>
  Claim C5. Once the connection is open, every run closes it exactly once, and the close
  is the last event of the run, whether the read succeeded or \<^verbatim>\<open>Run\<close> panicked on it.
\<close>

theorem connection_closed_once:
  assumes "resolve a = Inr t" and "connects w ''tcp'' (host t @ '':'' @ port t)"
  shows "closes (snd (Run w (a # args))) = 1 \<and> last (snd (Run w (a # args))) = Close"
  by (simp add: Run_connected [OF assms] exchange_result Let_def println2_def)

theorem connection_closed_once_witness:
  "resolve ''http://example.com/get'' = Inr \<lparr>host = ''example.com'', port = ''80'', path = ''/get''\<rparr>
   \<and> connects broken_server ''tcp'' ''example.com:80''
   \<and> fst (Run broken_server [''http://example.com/get'']) = Panic (ReadError ReadFault)
   \<and> closes (snd (Run broken_server [''http://example.com/get''])) = 1
   \<and> last (snd (Run broken_server [''http://example.com/get''])) = Close"
proof -
  have r: "resolve ''http://example.com/get'' = Inr \<lparr>host = ''example.com'', port = ''80'', path = ''/get''\<rparr>"
    by code_simp
  have c: "connects broken_server ''tcp'' (host \<lparr>host = ''example.com'', port = ''80'', path = ''/get''\<rparr> @ '':'' @ port \<lparr>host = ''example.com'', port = ''80'', path = ''/get''\<rparr>)"
    by (simp add: broken_server_def)
  have p: "fst (Run broken_server [''http://example.com/get'']) = Panic (ReadError ReadFault)"
    by code_simp
  from connection_closed_once [OF r c, of "[]"] r c p show ?thesis by simp
qed

subsection \<open>Standard output\<close>

text \<open>
  Claim C8. When \<^verbatim>\<open>Run\<close> returns, standard output holds the bytes the read returned (the
  first 1024 of what the peer delivered in answer to the request) followed by one newline
  and nothing else, the lines \<^verbatim>\<open>Host:\<close>, \<^verbatim>\<open>Port:\<close>, \<^verbatim>\<open>Path:\<close> being on standard error; and
  the process, whose command line left this one argument for \<^verbatim>\<open>Run\<close>, exits with status 0.
\<close>

theorem stdout_is_response:
  assumes "Run w [a] = (Returned, tr)" and "resolve a = Inr t"
  shows "stdout tr = take 1024 (pending (answers w (host t @ '':'' @ port t)
             (''GET '' @ path t @ '' HTTP/1.0'' @ [CHR 0x0D, CHR 0x0A]
              @ ''Host: '' @ host t @ [CHR 0x0D, CHR 0x0A, CHR 0x0D, CHR 0x0A]))) @ [CHR 0x0A]
         \<and> Execute w (Positional [a]) = (0, tr)"
proof (cases "connects w ''tcp'' (host t @ '':'' @ port t)")
  case False
  with assms show ?thesis by (simp add: Run_refused)
next
  case True
  have req: "request (path t) (host t) = ''GET '' @ path t @ '' HTTP/1.0'' @ [CHR 0x0D, CHR 0x0A]
              @ ''Host: '' @ host t @ [CHR 0x0D, CHR 0x0A, CHR 0x0D, CHR 0x0A]"
    by (simp add: request_def CRLF_def)
  let ?p = "answers w (host t @ '':'' @ port t) (request (path t) (host t))"
  from assms(1) have ok: "\<not> broken ?p \<and> pending ?p \<noteq> []"
    by (auto simp: Run_connected [OF assms(2) True] exchange_result Let_def split: if_splits)
  with assms(1) have "stdout tr = take 1024 (pending ?p) @ [CHR 0x0A]"
    by (auto simp: Run_connected [OF assms(2) True] exchange_result Let_def println2_def LF_def)
  moreover from assms(1) have "Execute w (Positional [a]) = (0, tr)"
    by (simp add: Execute_def exit_status_def)
  ultimately show ?thesis by (simp add: req)
qed

theorem stdout_is_response_witness:
  "Run (stub_server (''HTTP/1.0 200 OK'' @ [CHR 0x0D, CHR 0x0A, CHR 0x0D, CHR 0x0A] @ ''hi''))
       [''http://example.com/get'']
     = (Returned,
        [Stderr (''Host: example.com'' @ [CHR 0x0A]), Stderr (''Port: 80'' @ [CHR 0x0A]),
         Stderr (''Path: /get'' @ [CHR 0x0A]), Dial ''tcp'' ''example.com:80'',
         Write (''GET /get HTTP/1.0'' @ [CHR 0x0D, CHR 0x0A] @ ''Host: example.com''
                @ [CHR 0x0D, CHR 0x0A, CHR 0x0D, CHR 0x0A]),
         Read 1024,
         Stdout (''HTTP/1.0 200 OK'' @ [CHR 0x0D, CHR 0x0A, CHR 0x0D, CHR 0x0A] @ ''hi'' @ [CHR 0x0A]),
         Close])
   \<and> resolve ''http://example.com/get''
       = Inr \<lparr>host = ''example.com'', port = ''80'', path = ''/get''\<rparr>
   \<and> stdout [Stderr (''Host: example.com'' @ [CHR 0x0A]), Stderr (''Port: 80'' @ [CHR 0x0A]),
         Stderr (''Path: /get'' @ [CHR 0x0A]), Dial ''tcp'' ''example.com:80'',
         Write (''GET /get HTTP/1.0'' @ [CHR 0x0D, CHR 0x0A] @ ''Host: example.com''
                @ [CHR 0x0D, CHR 0x0A, CHR 0x0D, CHR 0x0A]),
         Read 1024,
         Stdout (''HTTP/1.0 200 OK'' @ [CHR 0x0D, CHR 0x0A, CHR 0x0D, CHR 0x0A] @ ''hi'' @ [CHR 0x0A]),
         Close]
       = ''HTTP/1.0 200 OK'' @ [CHR 0x0D, CHR 0x0A, CHR 0x0D, CHR 0x0A] @ ''hi'' @ [CHR 0x0A]
   \<and> fst (Execute (stub_server (''HTTP/1.0 200 OK'' @ [CHR 0x0D, CHR 0x0A, CHR 0x0D, CHR 0x0A] @ ''hi''))
       (Positional [''http://example.com/get''])) = 0"
proof -
  let ?w = "stub_server (''HTTP/1.0 200 OK'' @ [CHR 0x0D, CHR 0x0A, CHR 0x0D, CHR 0x0A] @ ''hi'')"
  let ?tr = "[Stderr (''Host: example.com'' @ [CHR 0x0A]), Stderr (''Port: 80'' @ [CHR 0x0A]),
         Stderr (''Path: /get'' @ [CHR 0x0A]), Dial ''tcp'' ''example.com:80'',
         Write (''GET /get HTTP/1.0'' @ [CHR 0x0D, CHR 0x0A] @ ''Host: example.com''
                @ [CHR 0x0D, CHR 0x0A, CHR 0x0D, CHR 0x0A]),
         Read 1024,
         Stdout (''HTTP/1.0 200 OK'' @ [CHR 0x0D, CHR 0x0A, CHR 0x0D, CHR 0x0A] @ ''hi'' @ [CHR 0x0A]),
         Close]"
  have run: "Run ?w [''http://example.com/get''] = (Returned, ?tr)"
    by code_simp
  have r: "resolve ''http://example.com/get''
       = Inr \<lparr>host = ''example.com'', port = ''80'', path = ''/get''\<rparr>"
    by code_simp
  from stdout_is_response [OF run r] run r show ?thesis
    by (simp add: stub_server_def)
qed

subsection \<open>The path\<close>

text \<open>
  For \<^verbatim>\<open>http://example.com\<close> the path is empty and the request line is
  \<^verbatim>\<open>GET  HTTP/1.0\<close>, with nothing between the two spaces; for \<^verbatim>\<open>http://example.com/\<close> it
  is \<^verbatim>\<open>GET / HTTP/1.0\<close>. The two requests differ: the empty path is not framed as the
  root, which is the last part of claim C7.
\<close>

theorem empty_path_counterexample:
  "written (snd (Run (stub_server ''hi'') [''http://example.com'']))
     = [''GET  HTTP/1.0'' @ [CHR 0x0D, CHR 0x0A] @ ''Host: example.com''
        @ [CHR 0x0D, CHR 0x0A, CHR 0x0D, CHR 0x0A]]
   \<and> written (snd (Run (stub_server ''hi'') [''http://example.com/'']))
     = [''GET / HTTP/1.0'' @ [CHR 0x0D, CHR 0x0A] @ ''Host: example.com''
        @ [CHR 0x0D, CHR 0x0A, CHR 0x0D, CHR 0x0A]]
   \<and> written (snd (Run (stub_server ''hi'') [''http://example.com'']))
     \<noteq> written (snd (Run (stub_server ''hi'') [''http://example.com/'']))"
  by code_simp

text \<open>
  Claim C7, amended. For \<^verbatim>\<open>http://example.com/get\<close> the resolved path is \<^verbatim>\<open>/get\<close>; for
  \<^verbatim>\<open>http://example.com\<close> it is the empty string; and an empty path is put into the
  request line as it is, giving \<^verbatim>\<open>GET  HTTP/1.0\<close>.
\<close>

theorem path_extraction:
  "resolve ''http://example.com/get''
     = Inr \<lparr>host = ''example.com'', port = ''80'', path = ''/get''\<rparr>
   \<and> resolve ''http://example.com''
     = Inr \<lparr>host = ''example.com'', port = ''80'', path = []\<rparr>
   \<and> written (snd (exchange w c \<lparr>host = h, port = p, path = []\<rparr>))
     = [''GET  HTTP/1.0'' @ [CHR 0x0D, CHR 0x0A] @ ''Host: '' @ h
        @ [CHR 0x0D, CHR 0x0A, CHR 0x0D, CHR 0x0A]]"
proof -
  have a: "resolve ''http://example.com/get''
     = Inr \<lparr>host = ''example.com'', port = ''80'', path = ''/get''\<rparr>"
    by code_simp
  have b: "resolve ''http://example.com''
     = Inr \<lparr>host = ''example.com'', port = ''80'', path = []\<rparr>"
    by code_simp
  have c: "written (snd (exchange w c \<lparr>host = h, port = p, path = []\<rparr>))
     = [''GET  HTTP/1.0'' @ [CHR 0x0D, CHR 0x0A] @ ''Host: '' @ h
        @ [CHR 0x0D, CHR 0x0A, CHR 0x0D, CHR 0x0A]]"
    by (simp add: exchange_result Let_def request_def CRLF_def)
  from a b c show ?thesis by simp
qed

subsection \<open>The port\<close>

text \<open>
  Claim C2. \<^verbatim>\<open>url.Parse\<close> keeps the authority without its userinfo in \<^verbatim>\<open>Host\<close>. For every
  URL that parses: when \<^verbatim>\<open>Host\<close> ends in a colon and a port (one or more digits), the
  resolved port is that digit string; when \<^verbatim>\<open>Host\<close> has no such ending, the resolved port
  is \<^verbatim>\<open>80\<close>. In terms of the URL text: for every scheme \<open>s\<close>, registered name \<open>h\<close>, port
  \<open>p\<close> and path \<open>pa\<close>, the URL \<open>s://h:p\<close> followed by \<open>pa\<close> resolves to host \<open>h\<close>, port
  \<open>p\<close> and path \<open>pa\<close>, and the URL \<open>s://h\<close> followed by \<open>pa\<close> resolves to host \<open>h\<close>, port
  \<^verbatim>\<open>80\<close> and path \<open>pa\<close>, whatever the scheme is.
\<close>

theorem port_default_policy:
  "(url_Parse a = Inr u \<and> Host u = h' @ '':'' @ d \<and> is_port d
      \<longrightarrow> (\<exists>t. resolve a = Inr t \<and> port t = d))
   \<and> (url_Parse a = Inr u \<and> (\<forall>h' d. Host u = h' @ '':'' @ d \<longrightarrow> \<not> is_port d)
      \<longrightarrow> (\<exists>t. resolve a = Inr t \<and> port t = ''80''))
   \<and> (is_scheme s \<and> is_reg_name h \<and> is_port p \<and> is_abs_path pa
      \<longrightarrow> resolve (s @ ''://'' @ h @ '':'' @ p @ pa) = Inr \<lparr>host = h, port = p, path = pa\<rparr>
        \<and> resolve (s @ ''://'' @ h @ pa) = Inr \<lparr>host = h, port = ''80'', path = pa\<rparr>)"
proof (intro conjI impI)
  assume "url_Parse a = Inr u \<and> Host u = h' @ '':'' @ d \<and> is_port d"
  then show "\<exists>t. resolve a = Inr t \<and> port t = d"
    using Port_explicit [of d h'] by (simp add: resolve_def Port_def is_port_def)
next
  assume "url_Parse a = Inr u \<and> (\<forall>h' d. Host u = h' @ '':'' @ d \<longrightarrow> \<not> is_port d)"
  then show "\<exists>t. resolve a = Inr t \<and> port t = ''80''"
    using Port_absent [of "Host u"] by (simp add: resolve_def Port_def)
next
  assume a: "is_scheme s \<and> is_reg_name h \<and> is_port p \<and> is_abs_path pa"
  then have "CHR '':'' # p = [] \<or> (\<exists>d. CHR '':'' # p = CHR '':'' # d \<and> is_port d)"
    by simp
  with a have "url_Parse (s @ ''://'' @ h @ (CHR '':'' # p) @ pa)
     = Inr (new_URL\<lparr>Scheme := strings_ToLower s, Host := h @ CHR '':'' # p, Path := pa\<rparr>)"
    by (intro url_Parse_plain) simp_all
  with a show "resolve (s @ ''://'' @ h @ '':'' @ p @ pa) = Inr \<lparr>host = h, port = p, path = pa\<rparr>"
    by (simp add: resolve_def Hostname_def Port_def splitHostPort_plain is_port_facts)
next
  assume a: "is_scheme s \<and> is_reg_name h \<and> is_port p \<and> is_abs_path pa"
  then have "url_Parse (s @ ''://'' @ h @ [] @ pa)
     = Inr (new_URL\<lparr>Scheme := strings_ToLower s, Host := h @ [], Path := pa\<rparr>)"
    by (intro url_Parse_plain) simp_all
  with a show "resolve (s @ ''://'' @ h @ pa) = Inr \<lparr>host = h, port = ''80'', path = pa\<rparr>"
    by (simp add: resolve_def Hostname_def Port_def splitHostPort_plain)
qed

theorem port_default_policy_witness:
  "url_Parse ''http://example.com:8080/x''
     = Inr (new_URL\<lparr>Scheme := ''http'', Host := ''example.com:8080'', Path := ''/x''\<rparr>)
   \<and> is_port ''8080''
   \<and> (\<exists>t. resolve ''http://example.com:8080/x'' = Inr t \<and> port t = ''8080'')
   \<and> url_Parse ''https://example.com/x''
     = Inr (new_URL\<lparr>Scheme := ''https'', Host := ''example.com'', Path := ''/x''\<rparr>)
   \<and> CHR '':'' \<notin> set ''example.com''
   \<and> (\<exists>t. resolve ''https://example.com/x'' = Inr t \<and> port t = ''80'')
   \<and> is_scheme ''https'' \<and> is_reg_name ''example.com'' \<and> is_abs_path ''/x''
   \<and> resolve ''https://example.com:8080/x''
     = Inr \<lparr>host = ''example.com'', port = ''8080'', path = ''/x''\<rparr>
   \<and> resolve ''https://example.com/x''
     = Inr \<lparr>host = ''example.com'', port = ''80'', path = ''/x''\<rparr>"
proof -
  let ?u1 = "new_URL\<lparr>Scheme := ''http'', Host := ''example.com:8080'', Path := ''/x''\<rparr>"
  let ?u2 = "new_URL\<lparr>Scheme := ''https'', Host := ''example.com'', Path := ''/x''\<rparr>"
  have p1: "url_Parse ''http://example.com:8080/x'' = Inr ?u1"
    by code_simp
  have p2: "url_Parse ''https://example.com/x'' = Inr ?u2"
    by code_simp
  have h1: "Host ?u1 = ''example.com'' @ '':'' @ ''8080''"
    by (simp add: new_URL_def)
  have h2: "Host ?u2 = ''example.com''"
    by (simp add: new_URL_def)
  have d: "is_port ''8080''" by code_simp
  have s: "is_scheme ''https''" by code_simp
  have r: "is_reg_name ''example.com''" by code_simp
  have a: "is_abs_path ''/x''" by code_simp
  have none: "\<forall>h' d. ''example.com'' = h' @ '':'' @ d \<longrightarrow> \<not> is_port d"
  proof (intro allI impI)
    fix h' d
    assume "''example.com'' = h' @ '':'' @ d"
    then have "CHR '':'' \<in> set ''example.com''"
      by (metis append_Cons in_set_conv_decomp)
    then show "\<not> is_port d" by simp
  qed
  from port_default_policy [of "''http://example.com:8080/x''" ?u1 "''example.com''" "''8080''"
      "''https''" "''example.com''" "''8080''" "''/x''"] p1 h1 d s r a
  have c1: "(\<exists>t. resolve ''http://example.com:8080/x'' = Inr t \<and> port t = ''8080'')"
    and c3: "resolve ''https://example.com:8080/x''
         = Inr \<lparr>host = ''example.com'', port = ''8080'', path = ''/x''\<rparr>
       \<and> resolve ''https://example.com/x''
         = Inr \<lparr>host = ''example.com'', port = ''80'', path = ''/x''\<rparr>"
    by simp_all
  from port_default_policy [of "''https://example.com/x''" ?u2 "[]" "[]"
      "''https''" "''example.com''" "''8080''" "''/x''"] p2 h2 none
  have c2: "(\<exists>t. resolve ''https://example.com/x'' = Inr t \<and> port t = ''80'')"
    by simp
  have nc: "CHR '':'' \<notin> set ''example.com''" by simp
  from p1 p2 d s r a nc c1 c2 c3 show ?thesis by blast
qed

subsection \<open>The scheme is not consulted\<close>

text \<open>
  Claim C9. Two inputs that differ only in their scheme, \<open>s1:rest\<close> and \<open>s2:rest\<close>,
  resolve to the same host, port and path (or fail to parse with the same kind of error),
  and in the same world the two runs are the same, event for event: the same address is
  dialed and the same request bytes are written.
\<close>

theorem scheme_is_ignored:
  assumes "is_scheme s1" and "is_scheme s2"
  shows "resolve (s1 @ '':'' @ rest) = resolve (s2 @ '':'' @ rest)
         \<and> Run w [s1 @ '':'' @ rest] = Run w [s2 @ '':'' @ rest]"
proof -
  have r: "resolve (s1 @ '':'' @ rest) = resolve (s2 @ '':'' @ rest)"
    using resolve_scheme_indep [OF assms, of rest] by simp
  from r Run_resolve_cong [OF r, of w "[]"] show ?thesis by blast
qed

theorem scheme_is_ignored_witness:
  "is_scheme ''http'' \<and> is_scheme ''https''
   \<and> resolve ''http://example.com/x'' = resolve ''https://example.com/x''
   \<and> resolve ''https://example.com/x''
       = Inr \<lparr>host = ''example.com'', port = ''80'', path = ''/x''\<rparr>
   \<and> Run (stub_server ''hi'') [''http://example.com/x'']
       = Run (stub_server ''hi'') [''https://example.com/x'']
   \<and> dialed (snd (Run (stub_server ''hi'') [''https://example.com/x'']))
       = [(''tcp'', ''example.com:80'')]"
proof -
  have a: "is_scheme ''http''" and b: "is_scheme ''https''" by code_simp+
  have r: "resolve ''https://example.com/x''
       = Inr \<lparr>host = ''example.com'', port = ''80'', path = ''/x''\<rparr>"
    by code_simp
  have d: "dialed (snd (Run (stub_server ''hi'') [''https://example.com/x'']))
       = [(''tcp'', ''example.com:80'')]"
    by code_simp
  from scheme_is_ignored [OF a b, of "''//example.com/x''" "stub_server ''hi''"] a b r d
  show ?thesis by simp
qed

subsection \<open>The query is dropped\<close>

text \<open>
  Claim C10. An input with a query is \<open>u?x\<close>, where \<open>u\<close> has neither \<^verbatim>\<open>?\<close> nor \<^verbatim>\<open>#\<close>; the
  query is \<open>x\<close> up to its first \<^verbatim>\<open>#\<close>, and from that \<^verbatim>\<open>#\<close> on \<open>x\<close> is the fragment, if
  there is one. The same URL without the query is \<open>u\<close> followed by that fragment part.
  Whenever the input with the query is accepted by \<^verbatim>\<open>url.Parse\<close>, the input without it
  resolves to the same host, port and path, and in the same world the two runs are the
  same, so the bytes written to the connection are the same and the query is not among
  them. The two inputs also fail alike, with one exception: a control byte in the query,
  for which \<^verbatim>\<open>url.Parse\<close> rejects the input that has the query.
\<close>

theorem query_is_dropped:
  assumes "CHR ''?'' \<notin> set u" and "CHR ''#'' \<notin> set u"
  shows "(resolve (u @ ''?'' @ x) = Inr t \<longrightarrow>
            resolve (u @ dropWhile (\<lambda>c. c \<noteq> CHR ''#'') x) = Inr t
            \<and> Run w [u @ ''?'' @ x] = Run w [u @ dropWhile (\<lambda>c. c \<noteq> CHR ''#'') x]
            \<and> written (snd (Run w [u @ ''?'' @ x]))
              = written (snd (Run w [u @ dropWhile (\<lambda>c. c \<noteq> CHR ''#'') x])))
         \<and> (\<not> stringContainsCTLByte (takeWhile (\<lambda>c. c \<noteq> CHR ''#'') x) \<longrightarrow>
            resolve (u @ ''?'' @ x) = resolve (u @ dropWhile (\<lambda>c. c \<noteq> CHR ''#'') x)
            \<and> Run w [u @ ''?'' @ x] = Run w [u @ dropWhile (\<lambda>c. c \<noteq> CHR ''#'') x])"
proof -
  have eq: "resolve (u @ ''?'' @ x) = resolve (u @ dropWhile (\<lambda>c. c \<noteq> CHR ''#'') x)
      \<and> Run w [u @ ''?'' @ x] = Run w [u @ dropWhile (\<lambda>c. c \<noteq> CHR ''#'') x]"
    if n: "\<not> stringContainsCTLByte (takeWhile (\<lambda>c. c \<noteq> CHR ''#'') x)"
  proof -
    have r: "resolve (u @ ''?'' @ x) = resolve (u @ dropWhile (\<lambda>c. c \<noteq> CHR ''#'') x)"
      using resolve_query_fragment [OF assms n] by simp
    have "Run w [u @ ''?'' @ x] = Run w [u @ dropWhile (\<lambda>c. c \<noteq> CHR ''#'') x]"
      by (rule Run_resolve_cong [OF r])
    with r show ?thesis by simp
  qed
  have ok: "\<not> stringContainsCTLByte (takeWhile (\<lambda>c. c \<noteq> CHR ''#'') x)"
    if "resolve (u @ ''?'' @ x) = Inr t"
    using resolve_ok_query_no_ctl [OF assms(2), of x t] that by simp
  show ?thesis
  proof (intro conjI impI)
    assume p: "resolve (u @ ''?'' @ x) = Inr t"
    from eq [OF ok [OF p]] p
    show "resolve (u @ dropWhile (\<lambda>c. c \<noteq> CHR ''#'') x) = Inr t" by simp
    from eq [OF ok [OF p]]
    show "Run w [u @ ''?'' @ x] = Run w [u @ dropWhile (\<lambda>c. c \<noteq> CHR ''#'') x]" by simp
    then show "written (snd (Run w [u @ ''?'' @ x]))
              = written (snd (Run w [u @ dropWhile (\<lambda>c. c \<noteq> CHR ''#'') x]))" by simp
  next
    assume n: "\<not> stringContainsCTLByte (takeWhile (\<lambda>c. c \<noteq> CHR ''#'') x)"
    from eq [OF n]
    show "resolve (u @ ''?'' @ x) = resolve (u @ dropWhile (\<lambda>c. c \<noteq> CHR ''#'') x)" by simp
    from eq [OF n]
    show "Run w [u @ ''?'' @ x] = Run w [u @ dropWhile (\<lambda>c. c \<noteq> CHR ''#'') x]" by simp
  qed
qed

theorem query_is_dropped_witness:
  "CHR ''?'' \<notin> set ''http://example.com/get'' \<and> CHR ''#'' \<notin> set ''http://example.com/get''
   \<and> takeWhile (\<lambda>c. c \<noteq> CHR ''#'') ''x=1#top'' = ''x=1''
   \<and> dropWhile (\<lambda>c. c \<noteq> CHR ''#'') ''x=1#top'' = ''#top''
   \<and> \<not> stringContainsCTLByte ''x=1''
   \<and> resolve ''http://example.com/get?x=1#top''
       = Inr \<lparr>host = ''example.com'', port = ''80'', path = ''/get''\<rparr>
   \<and> resolve ''http://example.com/get#top''
       = Inr \<lparr>host = ''example.com'', port = ''80'', path = ''/get''\<rparr>
   \<and> Run (stub_server ''hi'') [''http://example.com/get?x=1#top'']
       = Run (stub_server ''hi'') [''http://example.com/get#top'']
   \<and> written (snd (Run (stub_server ''hi'') [''http://example.com/get?x=1#top'']))
       = [''GET /get HTTP/1.0'' @ [CHR 0x0D, CHR 0x0A] @ ''Host: example.com''
          @ [CHR 0x0D, CHR 0x0A, CHR 0x0D, CHR 0x0A]]
   \<and> takeWhile (\<lambda>c. c \<noteq> CHR ''#'') ''x=1'' = ''x=1''
   \<and> dropWhile (\<lambda>c. c \<noteq> CHR ''#'') ''x=1'' = []
   \<and> resolve ''http://example.com/get?x=1'' = resolve ''http://example.com/get''
   \<and> Run (stub_server ''hi'') [''http://example.com/get?x=1'']
       = Run (stub_server ''hi'') [''http://example.com/get'']"
proof -
  let ?t = "\<lparr>host = ''example.com'', port = ''80'', path = ''/get''\<rparr>"
  have a: "CHR ''?'' \<notin> set ''http://example.com/get''"
    and b: "CHR ''#'' \<notin> set ''http://example.com/get''" by simp_all
  have t1: "takeWhile (\<lambda>c. c \<noteq> CHR ''#'') ''x=1#top'' = ''x=1''"
    and d1: "dropWhile (\<lambda>c. c \<noteq> CHR ''#'') ''x=1#top'' = ''#top''"
    and t2: "takeWhile (\<lambda>c. c \<noteq> CHR ''#'') ''x=1'' = ''x=1''"
    and d2: "dropWhile (\<lambda>c. c \<noteq> CHR ''#'') ''x=1'' = []" by simp_all
  have n: "\<not> stringContainsCTLByte ''x=1''" by code_simp
  have r: "resolve ''http://example.com/get?x=1#top'' = Inr ?t"
    by code_simp
  have w: "written (snd (Run (stub_server ''hi'') [''http://example.com/get#top'']))
       = [''GET /get HTTP/1.0'' @ [CHR 0x0D, CHR 0x0A] @ ''Host: example.com''
          @ [CHR 0x0D, CHR 0x0A, CHR 0x0D, CHR 0x0A]]"
    by code_simp
  from query_is_dropped [OF a b, of "''x=1#top''" ?t "stub_server ''hi''"] r w
  have c1: "resolve ''http://example.com/get#top'' = Inr ?t
      \<and> Run (stub_server ''hi'') [''http://example.com/get?x=1#top'']
        = Run (stub_server ''hi'') [''http://example.com/get#top'']
      \<and> written (snd (Run (stub_server ''hi'') [''http://example.com/get?x=1#top'']))
       = [''GET /get HTTP/1.0'' @ [CHR 0x0D, CHR 0x0A] @ ''Host: example.com''
          @ [CHR 0x0D, CHR 0x0A, CHR 0x0D, CHR 0x0A]]"
    by (simp add: d1)
  from query_is_dropped [OF a b, of "''x=1''" ?t "stub_server ''hi''"] n
  have c2: "resolve ''http://example.com/get?x=1'' = resolve ''http://example.com/get''
      \<and> Run (stub_server ''hi'') [''http://example.com/get?x=1'']
        = Run (stub_server ''hi'') [''http://example.com/get'']"
    by (simp add: t2 d2)
  from a b t1 d1 t2 d2 n r c1 c2 show ?thesis by blast
qed

end
